theory Spec2Isabelle
  imports Complex_Main "HOL-Library.Sublist" "HOL-Library.Log_Nat"
begin

section \<open>Data model (src/types/index.ts)\<close>

datatype Priority = urgent | high | normal | low

datatype ComplaintCategory =
  water | electrical | internet | infrastructure | sanitation | security | maintenance | other

text \<open>The string behind each member of the \<open>ComplaintCategory\<close> union type.\<close>

fun categoryName :: "ComplaintCategory \<Rightarrow> string" where
  "categoryName water = ''water''"
| "categoryName electrical = ''electrical''"
| "categoryName internet = ''internet''"
| "categoryName infrastructure = ''infrastructure''"
| "categoryName sanitation = ''sanitation''"
| "categoryName security = ''security''"
| "categoryName maintenance = ''maintenance''"
| "categoryName other = ''other''"

section \<open>Keyword dictionaries (src/lib/ai-engine.ts)\<close>

text \<open>
  \<open>CATEGORY_KEYWORDS\<close> is an object literal; \<open>Object.entries\<close> and \<open>Object.keys\<close>
  enumerate its string keys in insertion order, so it is an association list in the
  order of the source.
\<close>

definition CATEGORY_KEYWORDS :: "(ComplaintCategory \<times> string list) list" where
  "CATEGORY_KEYWORDS =
    [(water,
       [''water'', ''pipe'', ''leak'', ''flood'', ''drain'', ''sewage'', ''tap'', ''supply'',
        ''plumbing'', ''overflow'', ''blockage'', ''contamination'', ''dirty water'',
        ''no water'', ''water cut'', ''burst pipe'', ''moisture'', ''damp'']),
     (electrical,
       [''electricity'', ''electric'', ''power'', ''light'', ''bulb'', ''wiring'', ''socket'',
        ''switch'', ''fuse'', ''transformer'', ''outage'', ''blackout'', ''short circuit'',
        ''voltage'', ''generator'', ''meter'', ''sparks'', ''shock'', ''no power'']),
     (internet,
       [''internet'', ''wifi'', ''network'', ''connection'', ''broadband'', ''router'',
        ''signal'', ''slow internet'', ''disconnected'', ''bandwidth'', ''cable'',
        ''fiber'', ''lan'', ''modem'', ''connectivity'', ''online'', ''offline'']),
     (infrastructure,
       [''road'', ''pothole'', ''bridge'', ''building'', ''wall'', ''ceiling'', ''floor'',
        ''crack'', ''construction'', ''pavement'', ''sidewalk'', ''parking'', ''gate'',
        ''fence'', ''roof'', ''structure'', ''foundation'', ''elevator'', ''lift'']),
     (sanitation,
       [''garbage'', ''waste'', ''trash'', ''dustbin'', ''cleaning'', ''hygiene'', ''toilet'',
        ''bathroom'', ''restroom'', ''smell'', ''odor'', ''pest'', ''rat'', ''cockroach'',
        ''mosquito'', ''dirty'', ''filth'', ''sweep'', ''litter'']),
     (security,
       [''security'', ''theft'', ''robbery'', ''vandalism'', ''cctv'', ''camera'', ''guard'',
        ''safety'', ''danger'', ''threat'', ''suspicious'', ''break-in'', ''trespassing'',
        ''harassment'', ''violence'', ''crime'', ''police'', ''emergency'']),
     (maintenance,
       [''maintenance'', ''repair'', ''broken'', ''damaged'', ''worn'', ''old'', ''replace'',
        ''fix'', ''service'', ''equipment'', ''machine'', ''appliance'', ''furniture'',
        ''door'', ''window'', ''lock'', ''hinge'', ''paint'', ''renovation'']),
     (other, [])]"

definition URGENT_KEYWORDS :: "string list" where
  "URGENT_KEYWORDS =
    [''urgent'', ''emergency'', ''critical'', ''immediately'', ''asap'', ''dangerous'',
     ''hazardous'', ''life-threatening'', ''fire'', ''flood'', ''explosion'', ''gas leak'',
     ''electric shock'', ''accident'', ''injury'', ''blood'', ''collapse'', ''fallen'']"

definition HIGH_KEYWORDS :: "string list" where
  "HIGH_KEYWORDS =
    [''broken'', ''not working'', ''completely'', ''totally'', ''severe'', ''major'',
     ''serious'', ''significant'', ''important'', ''affecting many'', ''multiple'',
     ''days'', ''week'', ''unbearable'', ''intolerable'', ''health risk'']"

definition LOW_KEYWORDS :: "string list" where
  "LOW_KEYWORDS =
    [''minor'', ''small'', ''slight'', ''little'', ''cosmetic'', ''aesthetic'', ''suggestion'',
     ''improvement'', ''enhancement'', ''when possible'', ''not urgent'', ''low priority'']"

text \<open>\<open>CATEGORY_KEYWORDS[category]\<close>: every category is a key of the literal.\<close>

definition keywordsOf :: "ComplaintCategory \<Rightarrow> string list" where
  "keywordsOf category = (case map_of CATEGORY_KEYWORDS category of Some kws \<Rightarrow> kws | None \<Rightarrow> [])"

section \<open>Text preprocessing\<close>

text \<open>
  A text is a list of code units; the model covers the code units 0 to 255 (Latin-1), on
  which \<open>toLowerCase\<close>, the character class of the regular expression and \<open>trim\<close> are
  as follows. \<open>toLowerCase\<close> maps A to Z and the accented capitals U+00C0 to U+00DE
  (U+00D7, the multiplication sign, apart) to the letter 32 places further.
\<close>

definition toLowerCase_char :: "char \<Rightarrow> char" where
  "toLowerCase_char c =
     (let n = (of_char c :: nat)
      in if (65 \<le> n \<and> n \<le> 90) \<or> (192 \<le> n \<and> n \<le> 222 \<and> n \<noteq> 215)
         then char_of (n + 32) else c)"

definition toLowerCase :: "string \<Rightarrow> string" where
  "toLowerCase text = map toLowerCase_char text"

text \<open>
  The class \<open>\s\<close>, which is also what \<open>trim\<close> strips: tab, line feed, vertical tab,
  form feed, carriage return, space and the no-break space U+00A0.
\<close>

definition isWhiteSpace :: "char \<Rightarrow> bool" where
  "isWhiteSpace c = (let n = (of_char c :: nat) in (9 \<le> n \<and> n \<le> 13) \<or> n = 32 \<or> n = 160)"

text \<open>The characters that \<open>/[^a-z0-9\s-]/g\<close> leaves in place.\<close>

definition keptChar :: "char \<Rightarrow> bool" where
  "keptChar c =
     (let n = (of_char c :: nat)
      in (97 \<le> n \<and> n \<le> 122) \<or> (48 \<le> n \<and> n \<le> 57) \<or> isWhiteSpace c \<or> n = 45)"

definition replaceOthers :: "string \<Rightarrow> string" where
  "replaceOthers s = map (\<lambda>c. if keptChar c then c else CHR '' '') s"

definition trim :: "string \<Rightarrow> string" where
  "trim s = rev (dropWhile isWhiteSpace (rev (dropWhile isWhiteSpace s)))"

definition preprocessText :: "string \<Rightarrow> string" where
  "preprocessText text = trim (replaceOthers (toLowerCase text))"

text \<open>\<open>s.includes(kw)\<close>: \<open>kw\<close> occurs in \<open>s\<close> as a contiguous substring.\<close>

definition includes_str :: "string \<Rightarrow> string \<Rightarrow> bool" where
  "includes_str s kw = sublist kw s"

section \<open>Priority determination\<close>

text \<open>
  Each of the three loops of \<open>determinePriority\<close> returns at the first keyword of its
  list that the text includes.
\<close>

fun anyIncluded :: "string \<Rightarrow> string list \<Rightarrow> bool" where
  "anyIncluded processed [] = False"
| "anyIncluded processed (kw # kws) =
     (if includes_str processed kw then True else anyIncluded processed kws)"

fun categoryPriorities :: "ComplaintCategory \<Rightarrow> Priority option" where
  "categoryPriorities electrical = Some high"
| "categoryPriorities water = Some high"
| "categoryPriorities security = Some high"
| "categoryPriorities infrastructure = Some normal"
| "categoryPriorities internet = Some normal"
| "categoryPriorities sanitation = Some normal"
| "categoryPriorities maintenance = Some low"
| "categoryPriorities other = None"

definition determinePriority :: "string \<Rightarrow> ComplaintCategory \<Rightarrow> Priority" where
  "determinePriority text category =
     (let processed = preprocessText text
      in if anyIncluded processed URGENT_KEYWORDS then urgent
         else if anyIncluded processed HIGH_KEYWORDS then high
         else if anyIncluded processed LOW_KEYWORDS then low
         else (case categoryPriorities category of Some p \<Rightarrow> p | None \<Rightarrow> normal))"

section \<open>Keyword extraction\<close>

text \<open>
  One pass of the inner loop of \<open>extractKeywords\<close> over a keyword list: \<open>found\<close> is
  the array being built, and a keyword is pushed when the text includes it and
  \<open>found\<close> does not hold it yet.
\<close>

fun scanKeywords :: "string \<Rightarrow> string list \<Rightarrow> string list \<Rightarrow> string list" where
  "scanKeywords processed [] found = found"
| "scanKeywords processed (kw # kws) found =
     scanKeywords processed kws
       (if includes_str processed kw \<and> kw \<notin> set found then found @ [kw] else found)"

fun scanEntries ::
  "string \<Rightarrow> (ComplaintCategory \<times> string list) list \<Rightarrow> string list \<Rightarrow> string list" where
  "scanEntries processed [] found = found"
| "scanEntries processed ((c, keywords) # entries) found =
     scanEntries processed entries (scanKeywords processed keywords found)"

definition extractKeywords :: "string \<Rightarrow> string list" where
  "extractKeywords text =
     (let processed = preprocessText text;
          found = scanEntries processed CATEGORY_KEYWORDS [];
          found' = scanKeywords processed (URGENT_KEYWORDS @ HIGH_KEYWORDS) found
      in take 10 found')"

section \<open>Numbers\<close>

text \<open>
  A finite Number is the rational it denotes. Every arithmetic operator rounds the exact
  result to the nearest binary64 value, ties to the even significand: \<open>binary64\<close>, with
  a significand of 53 bits and no bound on the exponent (the values below stay far from
  the largest and the smallest binary64 number, and a result too large for a Date is
  rejected by \<open>TimeClip\<close> whether it overflowed or not). A decimal literal such as
  \<open>0.8\<close> denotes \<open>binary64 (8 / 10)\<close>.
\<close>

definition ilog2 :: "rat \<Rightarrow> int" where
  "ilog2 x = (if 1 \<le> x then int (floorlog 2 (nat \<lfloor>x\<rfloor>)) - 1
              else - int (floorlog 2 (nat \<lceil>1 / x\<rceil> - 1)))"

definition roundTiesToEven :: "rat \<Rightarrow> int" where
  "roundTiesToEven y =
     (let f = \<lfloor>y\<rfloor>; d = y - of_int f
      in if d < 1 / 2 then f else if 1 / 2 < d then f + 1 else if even f then f else f + 1)"

definition binary64 :: "rat \<Rightarrow> rat" where
  "binary64 x =
     (if x = 0 then 0
      else let u = 2 powi (ilog2 \<bar>x\<bar> - 52) in of_int (roundTiesToEven (x / u)) * u)"

text \<open>\<open>Math.round\<close>: the nearest integer, a tie going up.\<close>

definition Math_round :: "rat \<Rightarrow> int" where
  "Math_round x = \<lfloor>x + 1 / 2\<rfloor>"

section \<open>Objects and arrays\<close>

text \<open>
  An object used as a dictionary keeps its string keys in insertion order: an association
  list. \<open>obj[k] = v\<close> replaces the value of a key that is there and appends a new key.
\<close>

fun assign :: "('k \<times> 'v) list \<Rightarrow> 'k \<Rightarrow> 'v \<Rightarrow> ('k \<times> 'v) list" where
  "assign [] k v = [(k, v)]"
| "assign ((k', v') # kvs) k v =
     (if k' = k then (k, v) # kvs else (k', v') # assign kvs k v)"

text \<open>
  \<open>Array.prototype.sort\<close> with a comparator is a stable sort: an element is placed
  before the first element that the comparator does not put it after.
\<close>

fun insertSorted :: "('a \<Rightarrow> 'a \<Rightarrow> int) \<Rightarrow> 'a \<Rightarrow> 'a list \<Rightarrow> 'a list" where
  "insertSorted cmp x [] = [x]"
| "insertSorted cmp x (y # ys) =
     (if cmp x y \<le> 0 then x # y # ys else y # insertSorted cmp x ys)"

definition sortBy :: "('a \<Rightarrow> 'a \<Rightarrow> int) \<Rightarrow> 'a list \<Rightarrow> 'a list" where
  "sortBy cmp xs = foldr (insertSorted cmp) xs []"

text \<open>\<open>s.split(sep)\<close> for a separator of one character.\<close>

fun split :: "char \<Rightarrow> string \<Rightarrow> string list" where
  "split sep [] = [[]]"
| "split sep (c # cs) =
     (if c = sep then [] # split sep cs
      else (case split sep cs of w # ws \<Rightarrow> (c # w) # ws | [] \<Rightarrow> [[c]]))"

datatype error = TypeError

section \<open>Category classification\<close>

fun scoreKeywords :: "string \<Rightarrow> string list \<Rightarrow> nat \<Rightarrow> nat" where
  "scoreKeywords processed [] score = score"
| "scoreKeywords processed (kw # kws) score =
     scoreKeywords processed kws
       (if includes_str processed kw
        then score + (if length (split CHR '' '' kw) > 1 then 2 else 1)
        else score)"

definition scoreCategory :: "string \<Rightarrow> ComplaintCategory \<Rightarrow> nat" where
  "scoreCategory text category = scoreKeywords (preprocessText text) (keywordsOf category) 0"

record CategoryResult =
  category :: ComplaintCategory
  confidence :: rat

text \<open>The first loop of \<open>classifyCategory\<close>; the state is \<open>scores\<close> and \<open>totalScore\<close>.\<close>

fun scoreLoop ::
  "string \<Rightarrow> ComplaintCategory list \<Rightarrow> (ComplaintCategory \<times> nat) list \<times> nat
     \<Rightarrow> (ComplaintCategory \<times> nat) list \<times> nat" where
  "scoreLoop text [] (scores, totalScore) = (scores, totalScore)"
| "scoreLoop text (cat # cats) (scores, totalScore) =
     (if cat = other then scoreLoop text cats (scores, totalScore)
      else let s = scoreCategory text cat
           in scoreLoop text cats (assign scores cat s, totalScore + s))"

text \<open>
  Destructuring \<open>sorted[0]\<close> throws a TypeError when \<open>sorted\<close> is empty, which is the
  \<open>Inl\<close> branch.
\<close>

definition classifyCategory :: "string \<Rightarrow> error + CategoryResult" where
  "classifyCategory text =
     (let categories = map fst CATEGORY_KEYWORDS;
          (scores, totalScore) = scoreLoop text categories ([], 0)
      in if totalScore = 0
         then Inr \<lparr>category = other, confidence = binary64 (3 / 10)\<rparr>
         else
           (case sortBy (\<lambda>(_, a) (_, b). int b - int a) scores of
              [] \<Rightarrow> Inl TypeError
            | (topCategory, topScore) # _ \<Rightarrow>
                let confidence =
                      min (binary64 (of_nat topScore
                             / max (binary64 (of_nat totalScore * binary64 (8 / 10))) 1)) 1
                in Inr \<lparr>category = topCategory,
                        confidence =
                          binary64 (of_int (Math_round (binary64 (confidence * 100))) / 100)\<rparr>))"

section \<open>Full classification\<close>

record Department =
  id :: string
  categories :: "string list"

record AIClassificationResult = CategoryResult +
  priority :: Priority
  "keywords" :: "string list"
  suggestedDepartmentId :: "string option"

text \<open>
  \<open>departments.find\<close> is \<open>List.find\<close>; a department may carry more fields than the
  two that are read, hence the record scheme.
\<close>

definition classifyComplaint ::
  "string \<Rightarrow> string \<Rightarrow> ('a Department_scheme) list \<Rightarrow> error + AIClassificationResult" where
  "classifyComplaint title description departments =
     (let fullText = title @ '' '' @ description
      in case classifyCategory fullText of
           Inl e \<Rightarrow> Inl e
         | Inr r \<Rightarrow>
             let priority = determinePriority fullText (category r);
                 keywords = extractKeywords fullText;
                 suggestedDepartment =
                   List.find (\<lambda>d. categoryName (category r) \<in> set (categories d)) departments
             in Inr \<lparr>category = category r, confidence = confidence r,
                     priority = priority, keywords = keywords,
                     suggestedDepartmentId = map_option id suggestedDepartment\<rparr>)"

section \<open>Dates\<close>

text \<open>
  A Date holds a time value: a number of milliseconds since the epoch, or NaN (an
  invalid Date). The operations follow the abstract operations of the language standard
  with the same names. \<open>LocalTZA t isUTC\<close>, the offset of the local time zone in
  milliseconds, belongs to the host and is a parameter.
\<close>

datatype Date = DateValue int | InvalidDate

datatype number = Num rat | NaN | PosInfinity | NegInfinity

definition msPerSecond :: int where "msPerSecond = 1000"
definition msPerMinute :: int where "msPerMinute = 60000"
definition msPerHour :: int where "msPerHour = 3600000"
definition msPerDay :: int where "msPerDay = 86400000"

definition Day :: "int \<Rightarrow> int" where
  "Day t = t div msPerDay"

definition HourFromTime :: "int \<Rightarrow> int" where
  "HourFromTime t = (t div msPerHour) mod 24"

definition MinFromTime :: "int \<Rightarrow> int" where
  "MinFromTime t = (t div msPerMinute) mod 60"

definition SecFromTime :: "int \<Rightarrow> int" where
  "SecFromTime t = (t div msPerSecond) mod 60"

definition msFromTime :: "int \<Rightarrow> int" where
  "msFromTime t = t mod msPerSecond"

definition WeekDay :: "int \<Rightarrow> int" where
  "WeekDay t = (Day t + 4) mod 7"

definition LocalTime :: "(int \<Rightarrow> bool \<Rightarrow> int) \<Rightarrow> int \<Rightarrow> int" where
  "LocalTime LocalTZA t = t + LocalTZA t True"

definition UTC :: "(int \<Rightarrow> bool \<Rightarrow> int) \<Rightarrow> rat \<Rightarrow> rat" where
  "UTC LocalTZA t = binary64 (t - of_int (LocalTZA \<lfloor>t\<rfloor> False))"

definition ToIntegerOrInfinity :: "rat \<Rightarrow> int" where
  "ToIntegerOrInfinity x = (if 0 \<le> x then \<lfloor>x\<rfloor> else \<lceil>x\<rceil>)"

definition MakeTime :: "rat \<Rightarrow> int \<Rightarrow> int \<Rightarrow> int \<Rightarrow> rat" where
  "MakeTime hour m s milli =
     (let h = ToIntegerOrInfinity hour
      in binary64 (binary64 (binary64 (binary64 (of_int h * of_int msPerHour)
                                        + binary64 (of_int m * of_int msPerMinute))
                             + binary64 (of_int s * of_int msPerSecond))
                   + of_int milli))"

definition MakeDate :: "int \<Rightarrow> rat \<Rightarrow> rat" where
  "MakeDate day time = binary64 (binary64 (of_int day * of_int msPerDay) + time)"

definition TimeClip :: "rat \<Rightarrow> Date" where
  "TimeClip time =
     (if \<bar>time\<bar> > 8640000000000000 then InvalidDate
      else DateValue (ToIntegerOrInfinity time))"

definition getHours :: "(int \<Rightarrow> bool \<Rightarrow> int) \<Rightarrow> Date \<Rightarrow> number" where
  "getHours LocalTZA d =
     (case d of
        InvalidDate \<Rightarrow> NaN
      | DateValue t \<Rightarrow> Num (of_int (HourFromTime (LocalTime LocalTZA t))))"

definition setHours :: "(int \<Rightarrow> bool \<Rightarrow> int) \<Rightarrow> Date \<Rightarrow> number \<Rightarrow> Date" where
  "setHours LocalTZA d hour =
     (case d of
        InvalidDate \<Rightarrow> InvalidDate
      | DateValue t0 \<Rightarrow>
          (case hour of
             Num h \<Rightarrow>
               let t = LocalTime LocalTZA t0;
                   date = MakeDate (Day t)
                            (MakeTime h (MinFromTime t) (SecFromTime t) (msFromTime t))
               in TimeClip (UTC LocalTZA date)
           | _ \<Rightarrow> InvalidDate))"

text \<open>The operator \<open>+\<close> on two Numbers.\<close>

fun add :: "number \<Rightarrow> number \<Rightarrow> number" where
  "add (Num a) (Num b) = Num (binary64 (a + b))"
| "add NaN _ = NaN"
| "add _ NaN = NaN"
| "add PosInfinity NegInfinity = NaN"
| "add NegInfinity PosInfinity = NaN"
| "add PosInfinity _ = PosInfinity"
| "add _ PosInfinity = PosInfinity"
| "add NegInfinity _ = NegInfinity"
| "add _ NegInfinity = NegInfinity"

text \<open>
  \<open>toLocaleDateString('en-US', { weekday: 'long' })\<close>: the name of the day of the week
  in the local time zone.
\<close>

definition weekdayLong :: "(int \<Rightarrow> bool \<Rightarrow> int) \<Rightarrow> Date \<Rightarrow> string" where
  "weekdayLong LocalTZA d =
     (case d of
        InvalidDate \<Rightarrow> ''Invalid Date''
      | DateValue t \<Rightarrow>
          [''Sunday'', ''Monday'', ''Tuesday'', ''Wednesday'', ''Thursday'', ''Friday'',
           ''Saturday''] ! nat (WeekDay (LocalTime LocalTZA t)))"

section \<open>SLA calculator (lib/utils.ts)\<close>

definition calculateSLADeadline :: "(int \<Rightarrow> bool \<Rightarrow> int) \<Rightarrow> Date \<Rightarrow> number \<Rightarrow> Date" where
  "calculateSLADeadline LocalTZA createdAt slaHours =
     (let deadline = createdAt
      in setHours LocalTZA deadline (add (getHours LocalTZA deadline) slaHours))"

datatype SLAStatus = ok | warning | breached

text \<open>
  \<open>now\<close> is the time value of \<open>new Date()\<close>, which is never NaN. With an invalid
  deadline \<open>hoursLeft\<close> is NaN and both comparisons are false.
\<close>

definition getSLAStatus :: "Date \<Rightarrow> int \<Rightarrow> SLAStatus" where
  "getSLAStatus deadline now =
     (case deadline of
        InvalidDate \<Rightarrow> ok
      | DateValue d \<Rightarrow>
          let diff = binary64 (of_int d - of_int now);
              hoursLeft = binary64 (diff / (1000 * 60 * 60))
          in if hoursLeft < 0 then breached
             else if hoursLeft < 4 then warning
             else ok)"

section \<open>Pattern analysis\<close>

text \<open>The fields of a complaint that \<open>analyzePatterns\<close> reads.\<close>

record Complaint =
  category :: ComplaintCategory
  createdAt :: Date

datatype Trend = increasing | decreasing | stable

record PatternInsight =
  category :: ComplaintCategory
  frequency :: int
  trend :: Trend
  peakDays :: "string list"
  recommendation :: string

text \<open>The first loop; the state is \<open>categoryCount\<close> and \<open>categoryByDay\<close>.\<close>

fun countLoop ::
  "(int \<Rightarrow> bool \<Rightarrow> int) \<Rightarrow> ('a Complaint_scheme) list
     \<Rightarrow> (ComplaintCategory \<times> nat) list \<times> (ComplaintCategory \<times> (string \<times> nat) list) list
     \<Rightarrow> (ComplaintCategory \<times> nat) list \<times> (ComplaintCategory \<times> (string \<times> nat) list) list"
  where
  "countLoop LocalTZA [] (categoryCount, categoryByDay) = (categoryCount, categoryByDay)"
| "countLoop LocalTZA (c # cs) (categoryCount, categoryByDay) =
     (let cat = Complaint.category c;
          categoryCount' =
            assign categoryCount cat
              ((case map_of categoryCount cat of Some n \<Rightarrow> n | None \<Rightarrow> 0) + 1);
          day = weekdayLong LocalTZA (createdAt c);
          categoryByDay' =
            (case map_of categoryByDay cat of
               None \<Rightarrow> assign categoryByDay cat []
             | Some _ \<Rightarrow> categoryByDay);
          dayMap = (case map_of categoryByDay' cat of Some m \<Rightarrow> m | None \<Rightarrow> []);
          dayMap' =
            assign dayMap day ((case map_of dayMap day of Some n \<Rightarrow> n | None \<Rightarrow> 0) + 1)
      in countLoop LocalTZA cs (categoryCount', assign categoryByDay' cat dayMap'))"

text \<open>The body of the second loop: the insight of one entry of \<open>categoryCount\<close>.\<close>

definition insightOf ::
  "(ComplaintCategory \<times> (string \<times> nat) list) list \<Rightarrow> nat \<Rightarrow> ComplaintCategory \<times> nat
     \<Rightarrow> PatternInsight" where
  "insightOf categoryByDay total' entry =
     (let (category, count) = entry;
          dayMap = (case map_of categoryByDay category of Some m \<Rightarrow> m | None \<Rightarrow> []);
          peakDays = map fst (take 2 (sortBy (\<lambda>(_, a) (_, b). int b - int a) dayMap));
          frequency =
            Math_round (binary64 (binary64 (of_nat count / of_nat total') * 100));
          recommendation =
            (if frequency > 30
             then ''High volume of '' @ categoryName category
                    @ '' complaints. Consider preventive maintenance schedule.''
             else if frequency > 15
             then ''Moderate '' @ categoryName category
                    @ '' issues. Review infrastructure condition.''
             else categoryName category @ '' complaints are within normal range.'')
      in \<lparr>category = category, frequency = frequency,
          trend = (if frequency > 20 then increasing
                   else if frequency > 10 then stable else decreasing),
          peakDays = peakDays, recommendation = recommendation\<rparr>)"

definition analyzePatterns ::
  "(int \<Rightarrow> bool \<Rightarrow> int) \<Rightarrow> ('a Complaint_scheme) list \<Rightarrow> PatternInsight list" where
  "analyzePatterns LocalTZA complaints =
     (let (categoryCount, categoryByDay) = countLoop LocalTZA complaints ([], []);
          total' = (if length complaints = 0 then 1 else length complaints);
          insights = map (insightOf categoryByDay total') categoryCount
      in sortBy (\<lambda>a b. frequency b - frequency a) insights)"

section \<open>Notions of the specification\<close>

text \<open>
  The following definitions restate the words of the specification; the theorems below
  compare them with the functions above.
\<close>

text \<open>The fixed declaration order of the categories that are scored.\<close>

definition declarationOrder :: "ComplaintCategory list" where
  "declarationOrder =
     [water, electrical, internet, infrastructure, sanitation, security, maintenance]"

text \<open>
  The scan order of keyword extraction: the keyword list of every category in
  declaration order, then the urgent list, then the high list.
\<close>

definition scanOrder :: "string list" where
  "scanOrder = concat (map keywordsOf declarationOrder) @ URGENT_KEYWORDS @ HIGH_KEYWORDS"

text \<open>Every element once, at the place of its first occurrence.\<close>

fun firstOccurrences :: "'a list \<Rightarrow> 'a list" where
  "firstOccurrences [] = []"
| "firstOccurrences (x # xs) = x # removeAll x (firstOccurrences xs)"

text \<open>
  The points of a keyword: 2 for a phrase of several words, 1 for a single word, when it
  occurs in the preprocessed text.
\<close>

definition keywordPoints :: "string \<Rightarrow> string \<Rightarrow> nat" where
  "keywordPoints processed kw =
     (if sublist kw processed then (if CHR '' '' \<in> set kw then 2 else 1) else 0)"

definition totalScore :: "string \<Rightarrow> nat" where
  "totalScore text = sum_list (map (scoreCategory text) declarationOrder)"

text \<open>
  The confidence formula: min(topScore / max(total \<times> 0.8, 1), 1), rounded to 2 decimal
  places by \<open>Math.round\<close> of the hundredfold, every operation in binary64.
\<close>

definition confidenceOf :: "nat \<Rightarrow> nat \<Rightarrow> rat" where
  "confidenceOf topScore total' =
     binary64 (of_int (Math_round (binary64
       (min (binary64 (of_nat topScore / max (binary64 (of_nat total' * binary64 (8 / 10))) 1)) 1
          * 100))) / 100)"

text \<open>A local time zone whose offset from UTC never changes.\<close>

definition fixedZone :: "int \<Rightarrow> int \<Rightarrow> bool \<Rightarrow> int" where
  "fixedZone offset t isUTC = offset"

text \<open>One step of the first loop of \<open>analyzePatterns\<close>, on the counts alone.\<close>

definition countOne ::
  "'a Complaint_scheme \<Rightarrow> (ComplaintCategory \<times> nat) list \<Rightarrow> (ComplaintCategory \<times> nat) list" where
  "countOne c categoryCount =
     assign categoryCount (Complaint.category c)
       ((case map_of categoryCount (Complaint.category c) of Some n \<Rightarrow> n | None \<Rightarrow> 0) + 1)"

text \<open>
  The formula min(topScore / max(total \<times> 0.8, 1), 1) in exact arithmetic, before any
  rounding to 2 decimal places.
\<close>

definition exactQuotient :: "nat \<Rightarrow> nat \<Rightarrow> rat" where
  "exactQuotient topScore total' = min (of_nat topScore / max (of_nat total' * (8 / 10)) 1) 1"

text \<open>
  The local time zone America/New_York around the end of daylight saving time on
  5 November 2023: four hours behind UTC until 06:00 UTC of that day (02:00 local time),
  five hours behind from then on.
\<close>

definition newYork2023 :: "int \<Rightarrow> bool \<Rightarrow> int" where
  "newYork2023 t isUTC =
     (if isUTC then (if t < 1699164000000 then - 14400000 else - 18000000)
      else (if t < 1699149600000 then - 14400000 else - 18000000))"

text \<open>A department with the SLA hours that the callers pass along.\<close>

record SLADepartment = Department +
  slaHours :: number

section \<open>Rounding to binary64\<close>

lemma ilog2_ge_one:
  assumes "1 \<le> x"
  shows "2 powi (ilog2 x) \<le> x \<and> x < 2 powi (ilog2 x + 1)"
proof -
  let ?n = "nat \<lfloor>x\<rfloor>"
  from assms have n: "0 < ?n" by simp
  from floorlog_bounds [OF n, of 2]
  have lo: "2 ^ (floorlog 2 ?n - 1) \<le> ?n" and hi: "?n < 2 ^ floorlog 2 ?n" by simp_all
  from n have fl: "0 < floorlog 2 ?n" by (simp add: floorlog_eq_zero_iff zero_less_iff_neq_zero)
  have e: "ilog2 x = int (floorlog 2 ?n - 1)"
    using assms fl by (simp add: ilog2_def)
  have "(2::rat) ^ (floorlog 2 ?n - 1) = of_nat (2 ^ (floorlog 2 ?n - 1))" by simp
  also have "\<dots> \<le> of_nat ?n" using lo by (simp only: of_nat_le_iff)
  also have "\<dots> = of_int \<lfloor>x\<rfloor>" using assms by simp
  also have "\<dots> \<le> x" by simp
  finally have 1: "2 powi (ilog2 x) \<le> x" by (simp add: e)
  from hi have "int ?n < 2 ^ floorlog 2 ?n"
    by (metis of_nat_less_iff of_nat_numeral of_nat_power)
  with assms have "\<lfloor>x\<rfloor> < 2 ^ floorlog 2 ?n" by simp
  then have "x < of_int (2 ^ floorlog 2 ?n)" by (simp only: floor_less_iff)
  then have "x < 2 ^ floorlog 2 ?n" by simp
  moreover have "ilog2 x + 1 = int (floorlog 2 ?n)" using e fl by simp
  ultimately have 2: "x < 2 powi (ilog2 x + 1)" by simp
  from 1 2 show ?thesis ..
qed

lemma ilog2_lt_one:
  assumes "0 < x" "x < 1"
  shows "2 powi (ilog2 x) \<le> x \<and> x < 2 powi (ilog2 x + 1)"
proof -
  define c where "c = nat \<lceil>1 / x\<rceil>"
  define j where "j = floorlog 2 (c - 1)"
  from assms have y: "1 < 1 / x" by simp
  then have "1 < \<lceil>1 / x\<rceil>" by (simp add: less_ceiling_iff)
  then have c: "0 < c - 1" and ci: "int c = \<lceil>1 / x\<rceil>" by (simp_all add: c_def)
  from floorlog_bounds [OF c, of 2]
  have lo: "2 ^ (j - 1) \<le> c - 1" and hi: "c - 1 < 2 ^ j" by (simp_all add: j_def)
  from c have j: "0 < j" by (simp add: j_def floorlog_eq_zero_iff zero_less_iff_neq_zero)
  have e: "ilog2 x = - int j" using assms by (simp add: ilog2_def j_def c_def)
  \<comment> \<open>\<open>1 / x \<le> 2 ^ j\<close>\<close>
  from hi c have "c \<le> 2 ^ j" by linarith
  then have "int c \<le> int (2 ^ j)" by (simp only: of_nat_le_iff)
  with ci have "\<lceil>1 / x\<rceil> \<le> 2 ^ j" by simp
  then have "1 / x \<le> of_int (2 ^ j)" by (simp only: ceiling_le_iff)
  then have up: "1 / x \<le> 2 ^ j" by simp
  \<comment> \<open>\<open>2 ^ (j - 1) < 1 / x\<close>\<close>
  from lo c have "2 ^ (j - 1) < c" by linarith
  then have "int (2 ^ (j - 1)) < int c" by (simp only: of_nat_less_iff)
  with ci have "2 ^ (j - 1) < \<lceil>1 / x\<rceil>" by simp
  then have "of_int (2 ^ (j - 1)) < 1 / x" by (simp only: less_ceiling_iff)
  then have low: "2 ^ (j - 1) < 1 / x" by simp
  from up assms have "1 \<le> x * 2 ^ j"
    by (simp add: field_simps)
  then have "1 / 2 ^ j \<le> x" by (simp add: field_simps)
  then have 1: "2 powi (ilog2 x) \<le> x"
    by (simp add: e power_int_minus_divide)
  from low assms have "x * 2 ^ (j - 1) < 1" by (simp add: field_simps)
  then have "x < 1 / 2 ^ (j - 1)" by (simp add: field_simps)
  moreover have "ilog2 x + 1 = - int (j - 1)" using e j by simp
  ultimately have 2: "x < 2 powi (ilog2 x + 1)"
    by (simp only: power_int_minus_divide power_int_of_nat)
  from 1 2 show ?thesis ..
qed

lemma ilog2_bounds:
  assumes "0 < x"
  shows "2 powi (ilog2 x) \<le> x" "x < 2 powi (ilog2 x + 1)"
  using ilog2_ge_one [of x] ilog2_lt_one [of x] assms by (cases "1 \<le> x"; simp)+


lemma roundTiesToEven_of_int: "roundTiesToEven (of_int n) = n"
  by (simp add: roundTiesToEven_def)

lemma roundTiesToEven_ge:
  assumes "of_int N \<le> y"
  shows "N \<le> roundTiesToEven y"
proof -
  from assms have "N \<le> \<lfloor>y\<rfloor>" by (simp add: le_floor_iff)
  then show ?thesis by (simp add: roundTiesToEven_def Let_def)
qed

lemma roundTiesToEven_le:
  assumes "y \<le> of_int N"
  shows "roundTiesToEven y \<le> N"
proof (cases "y = of_int N")
  case True
  then show ?thesis by (simp add: roundTiesToEven_of_int)
next
  case False
  with assms have "y < of_int N" by simp
  then have "\<lfloor>y\<rfloor> < N" by (simp add: floor_less_iff)
  then show ?thesis by (simp add: roundTiesToEven_def Let_def)
qed

lemma roundTiesToEven_minus: "roundTiesToEven (- y) = - roundTiesToEven y"
proof (cases "y = of_int \<lfloor>y\<rfloor>")
  case True
  then obtain n where "y = of_int n" ..
  then have "- y = of_int (- n)" by simp
  with \<open>y = of_int n\<close> show ?thesis by (simp only: roundTiesToEven_of_int)
next
  case False
  define f where "f = \<lfloor>y\<rfloor>"
  define d where "d = y - of_int f"
  from False have "of_int f < y" unfolding f_def
    by (metis floor_less_cancel floor_of_int le_less of_int_floor_le)
  then have "of_int f < y \<and> y < of_int f + 1" unfolding f_def by linarith
  then have fm: "\<lfloor>- y\<rfloor> = - f - 1"
    by (intro floor_unique) simp_all
  have dm: "- y - of_int (- f - 1) = 1 - d" by (simp add: d_def)
  have "even (- f - 1) \<longleftrightarrow> odd f" by simp
  then show ?thesis
    unfolding roundTiesToEven_def Let_def fm dm f_def [symmetric] d_def [symmetric]
    by (cases "d < 1 / 2"; cases "1 / 2 < d"; cases "even f") (auto simp: field_simps)
qed

lemma binary64_minus: "binary64 (- x) = - binary64 x"
  by (simp add: binary64_def Let_def roundTiesToEven_minus)

text \<open>The scaled significand of a positive number lies between \<open>2 ^ 52\<close> and \<open>2 ^ 53\<close>.\<close>

lemma significand_bounds:
  assumes "0 < x"
  defines "u \<equiv> 2 powi (ilog2 x - 52)"
  shows "0 < u" "2 ^ 52 * u = 2 powi (ilog2 x)" "2 ^ 52 \<le> x / u" "x / u < 2 ^ 53"
proof -
  show u: "0 < u" by (simp add: u_def)
  have "(2::rat) powi (ilog2 x) = 2 powi (52 + (ilog2 x - 52))" by simp
  also have "\<dots> = 2 powi 52 * 2 powi (ilog2 x - 52)" by (subst power_int_add) simp_all
  finally show e: "2 ^ 52 * u = 2 powi (ilog2 x)" by (simp add: u_def)
  from ilog2_bounds(1) [OF assms(1)] e have "2 ^ 52 * u \<le> x" by simp
  with u show "2 ^ 52 \<le> x / u" by (simp add: field_simps)
  have "(2::rat) powi (ilog2 x + 1) = 2 * 2 powi (ilog2 x)"
    by (simp add: power_int_add)
  with ilog2_bounds(2) [OF assms(1)] e have "x < 2 ^ 53 * u" by simp
  with u show "x / u < 2 ^ 53" by (simp add: field_simps)
qed

lemma binary64_pos:
  assumes "0 < x"
  shows "binary64 x = of_int (roundTiesToEven (x / 2 powi (ilog2 x - 52))) * 2 powi (ilog2 x - 52)"
  using assms by (simp add: binary64_def Let_def)

lemma binary64_pos_le:
  assumes "0 < x" "x \<le> of_int m * 2 powi j" "m \<le> 2 ^ 53"
  shows "binary64 x \<le> of_int m * 2 powi j"
proof -
  define u :: rat where "u = 2 powi (ilog2 x - 52)"
  note sb = significand_bounds [OF assms(1), folded u_def]
  have b: "binary64 x = of_int (roundTiesToEven (x / u)) * u"
    using binary64_pos [OF assms(1)] by (simp add: u_def)
  show ?thesis
  proof (cases "ilog2 x - 52 \<le> j")
    case True
    define N where "N = m * 2 ^ nat (j - (ilog2 x - 52))"
    have "(2::rat) powi j = 2 powi ((j - (ilog2 x - 52)) + (ilog2 x - 52))" by simp
    also have "\<dots> = 2 powi (j - (ilog2 x - 52)) * u"
      unfolding u_def by (subst power_int_add) simp_all
    also have "2 powi (j - (ilog2 x - 52)) = (2::rat) ^ nat (j - (ilog2 x - 52))"
      using True by (simp add: power_int_def)
    finally have r: "of_int m * 2 powi j = of_int N * u"
      by (simp add: N_def)
    with assms(2) sb(1) have "x / u \<le> of_int N" by (simp add: field_simps)
    then have "roundTiesToEven (x / u) \<le> N" by (rule roundTiesToEven_le)
    then have "of_int (roundTiesToEven (x / u)) * u \<le> of_int N * u"
      using sb(1) by (simp add: mult_le_cancel_right)
    with b r show ?thesis by simp
  next
    case False
    then have "j + 53 \<le> ilog2 x" by simp
    have "of_int m * 2 powi j \<le> (2::rat) ^ 53 * 2 powi j"
    proof (rule mult_right_mono)
      from assms(3) have "(of_int m :: rat) \<le> of_int (2 ^ 53)" by (simp only: of_int_le_iff)
      then show "(of_int m :: rat) \<le> 2 ^ 53" by simp
    qed simp
    also have "\<dots> = 2 powi (53 + j)" by (subst power_int_add) simp_all
    also have "\<dots> \<le> 2 powi (ilog2 x)"
      using \<open>j + 53 \<le> ilog2 x\<close> by (intro power_int_increasing) simp_all
    finally have "of_int m * 2 powi j \<le> (2::rat) powi (ilog2 x)" .
    with ilog2_bounds(1) [OF assms(1)] assms(2)
    have x: "x = 2 powi (ilog2 x)" and r: "of_int m * 2 powi j = x" by simp_all
    from x sb(2) sb(1) have "x / u = of_int (2 ^ 52)" by (simp add: field_simps)
    then have "roundTiesToEven (x / u) = 2 ^ 52" by (simp only: roundTiesToEven_of_int)
    with b sb(2) x have "binary64 x = x" by simp
    with r show ?thesis by simp
  qed
qed

lemma binary64_pos_ge:
  assumes "0 < x" "of_int m * 2 powi j \<le> x" "m \<le> 2 ^ 53"
  shows "of_int m * 2 powi j \<le> binary64 x"
proof -
  define u :: rat where "u = 2 powi (ilog2 x - 52)"
  note sb = significand_bounds [OF assms(1), folded u_def]
  have b: "binary64 x = of_int (roundTiesToEven (x / u)) * u"
    using binary64_pos [OF assms(1)] by (simp add: u_def)
  show ?thesis
  proof (cases "ilog2 x - 52 \<le> j")
    case True
    define N where "N = m * 2 ^ nat (j - (ilog2 x - 52))"
    have "(2::rat) powi j = 2 powi ((j - (ilog2 x - 52)) + (ilog2 x - 52))" by simp
    also have "\<dots> = 2 powi (j - (ilog2 x - 52)) * u"
      unfolding u_def by (subst power_int_add) simp_all
    also have "2 powi (j - (ilog2 x - 52)) = (2::rat) ^ nat (j - (ilog2 x - 52))"
      using True by (simp add: power_int_def)
    finally have r: "of_int m * 2 powi j = of_int N * u"
      by (simp add: N_def)
    with assms(2) sb(1) have "of_int N \<le> x / u" by (simp add: field_simps)
    then have "N \<le> roundTiesToEven (x / u)" by (rule roundTiesToEven_ge)
    then have "of_int N * u \<le> of_int (roundTiesToEven (x / u)) * u"
      using sb(1) by (simp add: mult_le_cancel_right)
    with b r show ?thesis by simp
  next
    case False
    then have "j + 53 \<le> ilog2 x" by simp
    have "of_int m * 2 powi j \<le> (2::rat) ^ 53 * 2 powi j"
    proof (rule mult_right_mono)
      from assms(3) have "(of_int m :: rat) \<le> of_int (2 ^ 53)" by (simp only: of_int_le_iff)
      then show "(of_int m :: rat) \<le> 2 ^ 53" by simp
    qed simp
    also have "\<dots> = 2 powi (53 + j)" by (subst power_int_add) simp_all
    also have "\<dots> \<le> 2 powi (ilog2 x)"
      using \<open>j + 53 \<le> ilog2 x\<close> by (intro power_int_increasing) simp_all
    also have "\<dots> = of_int (2 ^ 52) * u" using sb(2) by simp
    also have "\<dots> \<le> of_int (roundTiesToEven (x / u)) * u"
    proof (rule mult_right_mono)
      from sb(3) have "of_int (2 ^ 52) \<le> x / u" by simp
      then have "2 ^ 52 \<le> roundTiesToEven (x / u)" by (rule roundTiesToEven_ge)
      then show "(of_int (2 ^ 52) :: rat) \<le> of_int (roundTiesToEven (x / u))"
        by (simp only: of_int_le_iff)
    qed (use sb(1) in simp)
    finally show ?thesis using b by simp
  qed
qed


lemma binary64_zero: "binary64 0 = 0"
  by (simp add: binary64_def)

lemma binary64_pos_gt:
  assumes "0 < x"
  shows "0 < binary64 x"
proof -
  have "of_int 1 * 2 powi (ilog2 x) \<le> binary64 x"
    using assms ilog2_bounds(1) [OF assms] by (intro binary64_pos_ge) simp_all
  moreover have "(0::rat) < of_int 1 * 2 powi (ilog2 x)" by simp
  ultimately show ?thesis by (rule less_le_trans [rotated])
qed

text \<open>
  Rounding does not cross a binary64 number: a value \<open>m * 2 ^ j\<close> with a significand
  \<open>m\<close> of at most 53 bits bounds the rounded number as it bounds the exact one.
\<close>

lemma binary64_le:
  assumes "x \<le> of_int m * 2 powi j" "\<bar>m\<bar> \<le> 2 ^ 53"
  shows "binary64 x \<le> of_int m * 2 powi j"
proof -
  consider "0 < x" | "x = 0" | "x < 0" by linarith
  then show ?thesis
  proof cases
    case 1
    with assms show ?thesis by (intro binary64_pos_le) simp_all
  next
    case 2
    with assms show ?thesis by (simp add: binary64_zero)
  next
    case 3
    then have nx: "0 < - x" by simp
    show ?thesis
    proof (cases "0 \<le> m")
      case True
      then have "(0::rat) \<le> of_int m * 2 powi j" by simp
      moreover from binary64_pos_gt [OF nx] have "binary64 x < 0"
        by (simp add: binary64_minus)
      ultimately show ?thesis by simp
    next
      case False
      have "of_int (- m) * 2 powi j \<le> binary64 (- x)"
        using nx assms by (intro binary64_pos_ge) simp_all
      then show ?thesis by (simp add: binary64_minus)
    qed
  qed
qed

lemma binary64_ge:
  assumes "of_int m * 2 powi j \<le> x" "\<bar>m\<bar> \<le> 2 ^ 53"
  shows "of_int m * 2 powi j \<le> binary64 x"
proof -
  have "binary64 (- x) \<le> of_int (- m) * 2 powi j"
    using assms by (intro binary64_le) simp_all
  then show ?thesis by (simp add: binary64_minus)
qed

lemma binary64_exact:
  assumes "\<bar>m\<bar> \<le> 2 ^ 53"
  shows "binary64 (of_int m * 2 powi j) = of_int m * 2 powi j"
  using binary64_le [OF order_refl assms, of j] binary64_ge [OF order_refl assms, of j]
  by (rule antisym)

lemma binary64_of_int:
  assumes "\<bar>n\<bar> \<le> 2 ^ 53"
  shows "binary64 (of_int n) = of_int n"
  using binary64_exact [OF assms, of 0] by simp

lemma binary64_le_int:
  assumes "x \<le> of_int n" "\<bar>n\<bar> \<le> 2 ^ 53"
  shows "binary64 x \<le> of_int n"
  using binary64_le [of x n 0] assms by simp

lemma binary64_ge_int:
  assumes "of_int n \<le> x" "\<bar>n\<bar> \<le> 2 ^ 53"
  shows "of_int n \<le> binary64 x"
  using binary64_ge [of n 0 x] assms by simp

lemma binary64_nonneg: "0 \<le> x \<Longrightarrow> 0 \<le> binary64 x"
  using binary64_ge_int [of 0 x] by simp

lemma binary64_neg_iff: "binary64 x < 0 \<longleftrightarrow> x < 0"
proof
  assume "binary64 x < 0"
  then show "x < 0" using binary64_nonneg [of x] by (cases "0 \<le> x") simp_all
next
  assume "x < 0"
  then have "0 < binary64 (- x)" by (intro binary64_pos_gt) simp
  then show "binary64 x < 0" by (simp add: binary64_minus)
qed

section \<open>Substrings survive preprocessing\<close>

lemma anyIncluded_iff: "anyIncluded p kws \<longleftrightarrow> (\<exists>kw \<in> set kws. includes_str p kw)"
  by (induction kws) auto

lemma sublist_dropWhile:
  assumes "sublist kw xs" "kw \<noteq> []" "\<not> P (hd kw)"
  shows "sublist kw (dropWhile P xs)"
proof -
  from assms(1) obtain ps ss where xs: "xs = ps @ kw @ ss"
    by (auto simp: sublist_def)
  from assms(2,3) have dk: "dropWhile P (kw @ ss) = kw @ ss"
    by (cases kw) auto
  show ?thesis
  proof (cases "\<forall>x \<in> set ps. P x")
    case True
    then have "dropWhile P xs = kw @ ss"
      using dk by (simp add: xs)
    then show ?thesis by simp
  next
    case False
    then have "dropWhile P xs = dropWhile P ps @ kw @ ss"
      by (auto simp: xs dropWhile_append)
    then show ?thesis by simp
  qed
qed

lemma sublist_trim:
  assumes "sublist kw xs" "kw \<noteq> []" "\<forall>c \<in> set kw. \<not> isWhiteSpace c"
  shows "sublist kw (trim xs)"
proof -
  have 1: "sublist kw (dropWhile isWhiteSpace xs)"
    using assms by (intro sublist_dropWhile) auto
  have "rev kw \<noteq> []" "\<not> isWhiteSpace (hd (rev kw))"
    using assms(2,3) by (auto simp: hd_rev)
  moreover have "sublist (rev kw) (rev (dropWhile isWhiteSpace xs))"
    using 1 by (simp add: sublist_rev)
  ultimately have "sublist (rev kw) (dropWhile isWhiteSpace (rev (dropWhile isWhiteSpace xs)))"
    by (intro sublist_dropWhile)
  then have "sublist (rev (rev kw)) (trim xs)"
    unfolding trim_def by (subst sublist_rev)
  then show ?thesis by simp
qed

lemma sublist_replaceOthers:
  assumes "sublist kw xs" "\<forall>c \<in> set kw. keptChar c"
  shows "sublist kw (replaceOthers xs)"
proof -
  have "sublist (replaceOthers kw) (replaceOthers xs)"
    unfolding replaceOthers_def using assms(1) by (rule map_mono_sublist)
  moreover have "replaceOthers kw = kw"
    unfolding replaceOthers_def using assms(2) by (induction kw) auto
  ultimately show ?thesis by simp
qed

lemma sublist_preprocessText:
  assumes "sublist kw (toLowerCase text)" "kw \<noteq> []"
    and "\<forall>c \<in> set kw. keptChar c \<and> \<not> isWhiteSpace c"
  shows "sublist kw (preprocessText text)"
  unfolding preprocessText_def
  using assms by (intro sublist_trim sublist_replaceOthers) auto

lemma urgent_chars: "\<forall>c \<in> set ''urgent''. keptChar c \<and> \<not> isWhiteSpace c"
  by (simp add: keptChar_def isWhiteSpace_def)

lemma urgent_included:
  assumes "sublist ''urgent'' (preprocessText text)"
  shows "determinePriority text cat = urgent"
proof -
  have "''urgent'' \<in> set URGENT_KEYWORDS"
    by (simp add: URGENT_KEYWORDS_def)
  with assms have "anyIncluded (preprocessText text) URGENT_KEYWORDS"
    unfolding anyIncluded_iff includes_str_def by blast
  then show ?thesis
    by (simp add: determinePriority_def)
qed

section \<open>Priority\<close>

text \<open>
  C1. \<open>determinePriority\<close> checks the keyword lists in strict precedence: a match of an
  urgent keyword in the preprocessed text gives \<open>urgent\<close>; otherwise a match of a high
  keyword gives \<open>high\<close>; otherwise a match of a low keyword gives \<open>low\<close>; otherwise the
  default of the category applies (electrical, water and security \<open>high\<close>; infrastructure,
  internet and sanitation \<open>normal\<close>; maintenance \<open>low\<close>; other \<open>normal\<close>). A text whose
  lower-cased form contains \<open>urgent\<close> is \<open>urgent\<close> for every category.
\<close>

theorem determinePriority_precedence:
  "determinePriority text cat =
     (let processed = preprocessText text
      in if \<exists>kw \<in> set URGENT_KEYWORDS. sublist kw processed then urgent
         else if \<exists>kw \<in> set HIGH_KEYWORDS. sublist kw processed then high
         else if \<exists>kw \<in> set LOW_KEYWORDS. sublist kw processed then low
         else (case cat of
                 electrical \<Rightarrow> high | water \<Rightarrow> high | security \<Rightarrow> high
               | infrastructure \<Rightarrow> normal | internet \<Rightarrow> normal | sanitation \<Rightarrow> normal
               | maintenance \<Rightarrow> low | other \<Rightarrow> normal))
   \<and> (sublist ''urgent'' (toLowerCase text) \<longrightarrow> determinePriority text cat = urgent)"
proof
  show "determinePriority text cat =
     (let processed = preprocessText text
      in if \<exists>kw \<in> set URGENT_KEYWORDS. sublist kw processed then urgent
         else if \<exists>kw \<in> set HIGH_KEYWORDS. sublist kw processed then high
         else if \<exists>kw \<in> set LOW_KEYWORDS. sublist kw processed then low
         else (case cat of
                 electrical \<Rightarrow> high | water \<Rightarrow> high | security \<Rightarrow> high
               | infrastructure \<Rightarrow> normal | internet \<Rightarrow> normal | sanitation \<Rightarrow> normal
               | maintenance \<Rightarrow> low | other \<Rightarrow> normal))"
    unfolding determinePriority_def Let_def anyIncluded_iff includes_str_def
    by (cases cat) simp_all
  show "sublist ''urgent'' (toLowerCase text) \<longrightarrow> determinePriority text cat = urgent"
  proof
    assume "sublist ''urgent'' (toLowerCase text)"
    then have "sublist ''urgent'' (preprocessText text)"
      using urgent_chars by (intro sublist_preprocessText) auto
    then show "determinePriority text cat = urgent"
      by (rule urgent_included)
  qed
qed

theorem determinePriority_precedence_witness:
  "sublist ''urgent'' (toLowerCase ''Lift broken - URGENT'')
   \<and> determinePriority ''Lift broken - URGENT'' maintenance = urgent"
proof -
  have h: "sublist ''urgent'' (toLowerCase ''Lift broken - URGENT'')"
    by code_simp
  with determinePriority_precedence [of "''Lift broken - URGENT''" maintenance]
  show ?thesis by blast
qed

text \<open>
  C10. A text whose preprocessed form contains \<open>not urgent\<close> is \<open>urgent\<close> for every
  category, never \<open>low\<close>: the urgent list is scanned first and \<open>not urgent\<close> contains
  the urgent keyword \<open>urgent\<close>.
\<close>

theorem not_urgent_is_urgent:
  "sublist ''not urgent'' (preprocessText text) \<Longrightarrow>
     determinePriority text cat = urgent \<and> determinePriority text cat \<noteq> low"
proof -
  assume a: "sublist ''not urgent'' (preprocessText text)"
  have "sublist ''urgent'' ''not urgent''"
    by code_simp
  with a have "sublist ''urgent'' (preprocessText text)"
    by (meson sublist_order.order_trans)
  then have "determinePriority text cat = urgent"
    by (rule urgent_included)
  then show ?thesis by simp
qed

theorem not_urgent_is_urgent_witness:
  "sublist ''not urgent'' (preprocessText ''Paint is peeling, NOT urgent.'')
   \<and> determinePriority ''Paint is peeling, NOT urgent.'' maintenance = urgent"
proof -
  have h: "sublist ''not urgent'' (preprocessText ''Paint is peeling, NOT urgent.'')"
    by code_simp
  from not_urgent_is_urgent [OF h, of maintenance] h show ?thesis by blast
qed

section \<open>Keyword extraction\<close>

lemma scanKeywords_append:
  "scanKeywords p (a @ b) found = scanKeywords p b (scanKeywords p a found)"
  by (induction a arbitrary: found) auto

lemma scanEntries_concat:
  "scanEntries p entries found = scanKeywords p (concat (map snd entries)) found"
  by (induction entries arbitrary: found) (auto simp: scanKeywords_append)

lemma filter_removeAll:
  "filter P (removeAll x ys) = filter (\<lambda>k. P k \<and> k \<noteq> x) ys"
  by (induction ys) auto

lemma scanKeywords_firstOccurrences:
  "scanKeywords p kws found =
     found @ filter (\<lambda>k. k \<notin> set found) (firstOccurrences (filter (includes_str p) kws))"
proof (induction kws arbitrary: found)
  case Nil
  then show ?case by simp
next
  case (Cons kw kws)
  show ?case
  proof (cases "includes_str p kw")
    case False
    then show ?thesis by (simp add: Cons.IH)
  next
    case inc: True
    show ?thesis
    proof (cases "kw \<in> set found")
      case True
      then have "filter (\<lambda>k. k \<notin> set found \<and> k \<noteq> kw) ys = filter (\<lambda>k. k \<notin> set found) ys" for ys
        by (intro filter_cong) auto
      with inc True show ?thesis
        by (simp add: Cons.IH filter_removeAll)
    next
      case False
      have "filter (\<lambda>k. k \<notin> set (found @ [kw])) ys = filter (\<lambda>k. k \<notin> set found \<and> k \<noteq> kw) ys" for ys
        by (intro filter_cong) auto
      with inc False show ?thesis
        by (simp add: Cons.IH filter_removeAll)
    qed
  qed
qed

lemma distinct_firstOccurrences: "distinct (firstOccurrences xs)"
  by (induction xs) (auto simp: distinct_removeAll)

lemma set_firstOccurrences: "set (firstOccurrences xs) = set xs"
  by (induction xs) auto

lemma entries_scanOrder:
  "concat (map snd CATEGORY_KEYWORDS) @ URGENT_KEYWORDS @ HIGH_KEYWORDS = scanOrder"
  by (simp add: scanOrder_def declarationOrder_def keywordsOf_def CATEGORY_KEYWORDS_def)

lemma extractKeywords_eq:
  "extractKeywords text =
     take 10 (firstOccurrences (filter (includes_str (preprocessText text)) scanOrder))"
proof -
  define p where "p = preprocessText text"
  have "scanKeywords p (URGENT_KEYWORDS @ HIGH_KEYWORDS) (scanEntries p CATEGORY_KEYWORDS [])
          = scanKeywords p scanOrder []"
    unfolding scanEntries_concat scanKeywords_append [symmetric] entries_scanOrder ..
  also have "\<dots> = firstOccurrences (filter (includes_str p) scanOrder)"
    by (simp add: scanKeywords_firstOccurrences)
  finally show ?thesis
    unfolding extractKeywords_def Let_def p_def by (rule arg_cong)
qed

text \<open>
  C6. \<open>extractKeywords\<close> returns at most 10 strings, without duplicates, in scan order:
  the keywords of the scan order (the categories in declaration order, then the urgent
  list, then the high list) that occur in the preprocessed text, each once at its first
  occurrence, cut after the first 10.
\<close>

theorem extractKeywords_scan_order:
  "length (extractKeywords text) \<le> 10
   \<and> distinct (extractKeywords text)
   \<and> extractKeywords text =
       take 10 (firstOccurrences (filter (\<lambda>kw. sublist kw (preprocessText text)) scanOrder))"
proof -
  have "(\<lambda>kw. sublist kw (preprocessText text)) = includes_str (preprocessText text)"
    by (auto simp: includes_str_def)
  then show ?thesis
    by (simp add: extractKeywords_eq distinct_firstOccurrences)
qed

section \<open>Classification\<close>

lemma scoreLoop_categories:
  "scoreLoop text (map fst CATEGORY_KEYWORDS) ([], 0) =
     (map (\<lambda>c. (c, scoreCategory text c)) declarationOrder, totalScore text)"
  by (simp add: CATEGORY_KEYWORDS_def declarationOrder_def totalScore_def Let_def)

lemma insertSorted_not_Nil: "insertSorted cmp x ys \<noteq> []"
  by (cases ys) auto

lemma sortBy_Cons: "sortBy cmp (x # xs) = insertSorted cmp x (sortBy cmp xs)"
  by (simp add: sortBy_def)

lemma sortBy_Nil: "sortBy cmp [] = []"
  by (simp add: sortBy_def)

lemma sortBy_eq_Nil: "sortBy cmp xs = [] \<longleftrightarrow> xs = []"
  by (cases xs) (auto simp: sortBy_Cons sortBy_Nil insertSorted_not_Nil)

lemma set_insertSorted: "set (insertSorted cmp x ys) = insert x (set ys)"
  by (induction ys) auto

lemma set_sortBy: "set (sortBy cmp xs) = set xs"
  by (induction xs) (auto simp: sortBy_Cons sortBy_Nil set_insertSorted)

lemma length_insertSorted: "length (insertSorted cmp x ys) = Suc (length ys)"
  by (induction ys) auto

lemma length_sortBy: "length (sortBy cmp xs) = length xs"
  by (induction xs) (auto simp: sortBy_Cons sortBy_Nil length_insertSorted)

text \<open>The head of a list sorted by descending key: the first element with the largest key.\<close>

lemma sortBy_desc_head:
  assumes "sortBy (\<lambda>a b. int (k b) - int (k a)) xs = h # t"
  shows "\<exists>before after. xs = before @ h # after
           \<and> (\<forall>y \<in> set before. k y < k h) \<and> (\<forall>y \<in> set after. k y \<le> k h)"
  using assms
proof (induction xs arbitrary: h t)
  case Nil
  then show ?case by (simp add: sortBy_Nil)
next
  case (Cons x xs)
  let ?cmp = "\<lambda>a b. int (k b) - int (k a)"
  show ?case
  proof (cases "sortBy ?cmp xs")
    case Nil
    then have "xs = []" by (simp add: sortBy_eq_Nil)
    with Cons.prems have "h = x" by (simp add: sortBy_Cons sortBy_Nil)
    with \<open>xs = []\<close> show ?thesis
      by (intro exI [of _ "[]"]) simp
  next
    case (Cons h' t')
    from Cons.IH [OF Cons] obtain b a where
      xs: "xs = b @ h' # a" and b: "\<forall>y \<in> set b. k y < k h'" and a: "\<forall>y \<in> set a. k y \<le> k h'"
      by blast
    show ?thesis
    proof (cases "k h' \<le> k x")
      case True
      with Cons Cons.prems have "h = x" by (simp add: sortBy_Cons)
      moreover from True xs a b have "\<forall>y \<in> set xs. k y \<le> k x" by fastforce
      ultimately show ?thesis by (intro exI [of _ "[]"] exI [of _ xs]) simp
    next
      case False
      with Cons Cons.prems have "h = h'" by (simp add: sortBy_Cons)
      with False xs a b show ?thesis
        by (intro exI [of _ "x # b"] exI [of _ a]) auto
    qed
  qed
qed

lemma sortBy_scores_conv:
  "sortBy (\<lambda>(_, a) (_, b). int b - int a) xs = sortBy (\<lambda>a b. int (snd b) - int (snd a)) xs"
  by (rule arg_cong [where f = "\<lambda>c. sortBy c xs"]) (auto simp: fun_eq_iff)

text \<open>The winner among the scored categories.\<close>

lemma sorted_scores_head:
  assumes "sortBy (\<lambda>(_, a) (_, b). int b - int a) (map (\<lambda>c. (c, f c)) cats) = (topCat, s) # t"
  shows "s = f topCat \<and> (\<exists>before after. cats = before @ topCat # after
           \<and> (\<forall>c \<in> set before. f c < f topCat) \<and> (\<forall>c \<in> set after. f c \<le> f topCat))"
proof -
  from sortBy_desc_head [OF assms [unfolded sortBy_scores_conv]]
  obtain b a where xs: "map (\<lambda>c. (c, f c)) cats = b @ (topCat, s) # a"
    and b: "\<forall>y \<in> set b. snd y < s" and a: "\<forall>y \<in> set a. snd y \<le> s"
    by auto
  from xs obtain cb ca where cats: "cats = cb @ topCat # ca"
    and cb: "b = map (\<lambda>c. (c, f c)) cb" and ca: "a = map (\<lambda>c. (c, f c)) ca" and s: "s = f topCat"
    by (auto simp: map_eq_append_conv map_eq_Cons_conv)
  from b cb s have "\<forall>c \<in> set cb. f c < f topCat" by auto
  moreover from a ca s have "\<forall>c \<in> set ca. f c \<le> f topCat" by auto
  ultimately show ?thesis using cats s by blast
qed

lemma classifyCategory_zero:
  assumes "totalScore text = 0"
  shows "classifyCategory text = Inr \<lparr>CategoryResult.category = other, confidence = binary64 (3 / 10)\<rparr>"
  using assms by (simp add: classifyCategory_def scoreLoop_categories)

lemma classifyCategory_pos:
  assumes "totalScore text \<noteq> 0"
  shows "\<exists>topCat before after.
           classifyCategory text =
             Inr \<lparr>CategoryResult.category = topCat,
                  confidence = confidenceOf (scoreCategory text topCat) (totalScore text)\<rparr>
           \<and> declarationOrder = before @ topCat # after
           \<and> (\<forall>c \<in> set before. scoreCategory text c < scoreCategory text topCat)
           \<and> (\<forall>c \<in> set after. scoreCategory text c \<le> scoreCategory text topCat)"
proof -
  let ?scores = "map (\<lambda>c. (c, scoreCategory text c)) declarationOrder"
  let ?sorted = "sortBy (\<lambda>(_, a) (_, b). int b - int a) ?scores"
  have "?sorted \<noteq> []"
    by (simp add: sortBy_eq_Nil declarationOrder_def)
  then obtain topCat s t where sorted: "?sorted = (topCat, s) # t"
    by (cases ?sorted) auto
  from sorted_scores_head [OF sorted] obtain before after where
    s: "s = scoreCategory text topCat" and order: "declarationOrder = before @ topCat # after"
    and b: "\<forall>c \<in> set before. scoreCategory text c < scoreCategory text topCat"
    and a: "\<forall>c \<in> set after. scoreCategory text c \<le> scoreCategory text topCat"
    by blast
  have "classifyCategory text =
          Inr \<lparr>CategoryResult.category = topCat,
               confidence = confidenceOf (scoreCategory text topCat) (totalScore text)\<rparr>"
    using assms sorted s
    by (simp add: classifyCategory_def scoreLoop_categories confidenceOf_def)
  with order a b show ?thesis by blast
qed

lemma split_not_Nil: "split sep s \<noteq> []"
  by (induction s) (auto split: list.splits)

lemma length_split: "length (split sep s) = Suc (length (filter (\<lambda>c. c = sep) s))"
proof (induction s)
  case Nil
  then show ?case by simp
next
  case (Cons c cs)
  then show ?case
    using split_not_Nil [of sep cs] by (cases "split sep cs") auto
qed

lemma several_words: "Suc 0 < length (split sep kw) \<longleftrightarrow> sep \<in> set kw"
  by (auto simp: length_split filter_empty_conv)

lemma scoreKeywords_sum:
  "scoreKeywords p kws acc = acc + sum_list (map (keywordPoints p) kws)"
  by (induction kws arbitrary: acc)
     (auto simp: keywordPoints_def includes_str_def several_words)

lemma scoreCategory_sum:
  "scoreCategory text c = sum_list (map (keywordPoints (preprocessText text)) (keywordsOf c))"
  by (simp add: scoreCategory_def scoreKeywords_sum)

lemma no_keyword_totalScore:
  assumes "\<forall>c. \<forall>kw \<in> set (keywordsOf c). \<not> sublist kw (preprocessText text)"
  shows "totalScore text = 0"
proof -
  have "scoreCategory text c = 0" for c
    using assms by (simp add: scoreCategory_sum keywordPoints_def)
  then show ?thesis by (simp add: totalScore_def)
qed

text \<open>
  C2. When the total keyword score is not zero, \<open>classifyCategory\<close> returns a category
  of the highest score, and among the categories that tie for the highest score the first
  in the declaration order water, electrical, internet, infrastructure, sanitation,
  security, maintenance: every category declared before the winner scores strictly less.
\<close>

theorem classifyCategory_winner:
  "totalScore text \<noteq> 0 \<Longrightarrow>
     \<exists>r before after.
        classifyCategory text = Inr r
      \<and> (\<forall>c \<in> set declarationOrder.
            scoreCategory text c \<le> scoreCategory text (CategoryResult.category r))
      \<and> declarationOrder = before @ CategoryResult.category r # after
      \<and> (\<forall>c \<in> set before. scoreCategory text c < scoreCategory text (CategoryResult.category r))"
proof -
  assume "totalScore text \<noteq> 0"
  from classifyCategory_pos [OF this] obtain topCat before after where
    r: "classifyCategory text =
          Inr \<lparr>CategoryResult.category = topCat,
               confidence = confidenceOf (scoreCategory text topCat) (totalScore text)\<rparr>"
    and order: "declarationOrder = before @ topCat # after"
    and b: "\<forall>c \<in> set before. scoreCategory text c < scoreCategory text topCat"
    and a: "\<forall>c \<in> set after. scoreCategory text c \<le> scoreCategory text topCat"
    by blast
  from a b have "\<forall>c \<in> set (before @ topCat # after). scoreCategory text c \<le> scoreCategory text topCat"
    by auto
  with order have "\<forall>c \<in> set declarationOrder. scoreCategory text c \<le> scoreCategory text topCat"
    by simp
  with r order b show ?thesis by fastforce
qed

theorem classifyCategory_winner_witness:
  "totalScore ''water pipe road wall'' \<noteq> 0
   \<and> scoreCategory ''water pipe road wall'' water = scoreCategory ''water pipe road wall'' infrastructure
   \<and> (\<exists>r. classifyCategory ''water pipe road wall'' = Inr r \<and> CategoryResult.category r = water)"
proof -
  have h: "totalScore ''water pipe road wall'' \<noteq> 0"
    by code_simp
  have e: "scoreCategory ''water pipe road wall'' water = scoreCategory ''water pipe road wall'' infrastructure"
    by code_simp
  from classifyCategory_winner [OF h] obtain r before after where
    r: "classifyCategory ''water pipe road wall'' = Inr r"
    and order: "declarationOrder = before @ CategoryResult.category r # after"
    and b: "\<forall>c \<in> set before.
              scoreCategory ''water pipe road wall'' c
                < scoreCategory ''water pipe road wall'' (CategoryResult.category r)"
    by blast
  have "CategoryResult.category r = water"
  proof (cases before)
    case Nil
    with order show ?thesis by (simp add: declarationOrder_def)
  next
    case (Cons c cs)
    with order have "c = water" by (simp add: declarationOrder_def)
    with Cons b have "scoreCategory ''water pipe road wall'' water
                < scoreCategory ''water pipe road wall'' (CategoryResult.category r)" by simp
    moreover have "scoreCategory ''water pipe road wall'' c \<le> scoreCategory ''water pipe road wall'' water" for c
      by (cases c; hypsubst; code_simp)
    ultimately show ?thesis by (simp add: not_less [symmetric])
  qed
  with h e r show ?thesis by blast
qed

text \<open>
  C4. A text in which no keyword of the category dictionary occurs has total score 0 and
  is classified as \<open>other\<close> with the confidence 0.3; and \<open>classifyComplaint("", "", [])\<close>
  returns category \<open>other\<close>, confidence 0.3, priority \<open>normal\<close>, no keyword and no
  suggested department.
\<close>

theorem no_keyword_gives_other:
  "((\<forall>c. \<forall>kw \<in> set (keywordsOf c). \<not> sublist kw (preprocessText text)) \<longrightarrow>
      totalScore text = 0
      \<and> classifyCategory text = Inr \<lparr>CategoryResult.category = other, confidence = binary64 (3 / 10)\<rparr>)
   \<and> classifyComplaint '''' '''' ([] :: Department list) =
       Inr \<lparr>CategoryResult.category = other, confidence = binary64 (3 / 10), priority = normal,
            keywords = [], suggestedDepartmentId = None\<rparr>"
proof (intro conjI impI)
  assume a: "\<forall>c. \<forall>kw \<in> set (keywordsOf c). \<not> sublist kw (preprocessText text)"
  then show "totalScore text = 0" by (rule no_keyword_totalScore)
  then show "classifyCategory text = Inr \<lparr>CategoryResult.category = other, confidence = binary64 (3 / 10)\<rparr>"
    by (rule classifyCategory_zero)
next
  have z: "totalScore '' '' = 0" by code_simp
  have p: "determinePriority '' '' other = normal" by code_simp
  have k: "extractKeywords '' '' = []" by code_simp
  show "classifyComplaint '''' '''' ([] :: Department list) =
       Inr \<lparr>CategoryResult.category = other, confidence = binary64 (3 / 10), priority = normal,
            keywords = [], suggestedDepartmentId = None\<rparr>"
    by (simp add: classifyComplaint_def classifyCategory_zero [OF z] p k)
qed

theorem no_keyword_gives_other_witness:
  "totalScore ''Hello, nothing here!'' = 0
   \<and> classifyCategory ''Hello, nothing here!'' =
        Inr \<lparr>CategoryResult.category = other, confidence = binary64 (3 / 10)\<rparr>"
proof -
  have h: "\<forall>c. \<forall>kw \<in> set (keywordsOf c). \<not> sublist kw (preprocessText ''Hello, nothing here!'')"
  proof
    fix c
    show "\<forall>kw \<in> set (keywordsOf c). \<not> sublist kw (preprocessText ''Hello, nothing here!'')"
      by (cases c; hypsubst; code_simp)
  qed
  with no_keyword_gives_other [of "''Hello, nothing here!''"] show ?thesis by blast
qed

lemma classifyCategory_total: "\<exists>r. classifyCategory text = Inr r"
proof (cases "totalScore text = 0")
  case True
  then show ?thesis by (simp add: classifyCategory_zero)
next
  case False
  from classifyCategory_pos [OF this] show ?thesis by blast
qed

lemma classifyComplaint_Inr:
  assumes "classifyCategory (title @ '' '' @ description) = Inr rc"
  shows "classifyComplaint title description departments =
           Inr \<lparr>CategoryResult.category = CategoryResult.category rc,
                confidence = confidence rc,
                priority = determinePriority (title @ '' '' @ description) (CategoryResult.category rc),
                keywords = extractKeywords (title @ '' '' @ description),
                suggestedDepartmentId =
                  map_option id
                    (List.find (\<lambda>d. categoryName (CategoryResult.category rc) \<in> set (categories d))
                       departments)\<rparr>"
  using assms by (simp add: classifyComplaint_def Let_def)

text \<open>
  C8. \<open>classifyComplaint\<close> returns a result whose category is the one resolved by
  \<open>classifyCategory\<close> on title, space, description; its \<open>suggestedDepartmentId\<close> is the
  id of the first department, in the order of the list, whose categories contain that
  category, and is absent when no department matches. For the complaint about no water in
  building A with the one department d1 for water, the category is \<open>water\<close>, the priority
  \<open>urgent\<close> and the suggested department d1.
\<close>

theorem classifyComplaint_department:
  "(\<exists>r rc. classifyComplaint title description departments = Inr r
       \<and> classifyCategory (title @ '' '' @ description) = Inr rc
       \<and> CategoryResult.category r = CategoryResult.category rc
       \<and> (\<forall>i < length departments.
             categoryName (CategoryResult.category r) \<in> set (categories (departments ! i))
             \<and> (\<forall>j < i. categoryName (CategoryResult.category r) \<notin> set (categories (departments ! j)))
             \<longrightarrow> suggestedDepartmentId r = Some (id (departments ! i)))
       \<and> ((\<forall>d \<in> set departments. categoryName (CategoryResult.category r) \<notin> set (categories d))
             \<longrightarrow> suggestedDepartmentId r = None))
   \<and> (\<exists>r. classifyComplaint ''No water in building A''
               ''There has been no water supply for 3 days, very urgent issue''
               [\<lparr>id = ''d1'', categories = [''water''], slaHours = Num 24\<rparr>] = Inr r
          \<and> CategoryResult.category r = water \<and> priority r = urgent
          \<and> suggestedDepartmentId r = Some ''d1'')"
proof
  from classifyCategory_total obtain rc where rc: "classifyCategory (title @ '' '' @ description) = Inr rc"
    by blast
  let ?P = "\<lambda>d. categoryName (CategoryResult.category rc) \<in> set (categories d)"
  let ?r = "\<lparr>CategoryResult.category = CategoryResult.category rc,
                confidence = confidence rc,
                priority = determinePriority (title @ '' '' @ description) (CategoryResult.category rc),
                keywords = extractKeywords (title @ '' '' @ description),
                suggestedDepartmentId = map_option id (List.find ?P departments)\<rparr>"
  have r: "classifyComplaint title description departments = Inr ?r"
    by (rule classifyComplaint_Inr [OF rc])
  have first: "suggestedDepartmentId ?r = Some (id (departments ! i))"
    if "i < length departments" "?P (departments ! i)" "\<forall>j < i. \<not> ?P (departments ! j)" for i
  proof -
    from that have "List.find ?P departments = Some (departments ! i)"
      unfolding find_Some_iff by blast
    then show ?thesis by simp
  qed
  have none: "suggestedDepartmentId ?r = None" if "\<forall>d \<in> set departments. \<not> ?P d"
  proof -
    from that have "List.find ?P departments = None"
      unfolding find_None_iff by blast
    then show ?thesis by simp
  qed
  show "\<exists>r rc. classifyComplaint title description departments = Inr r
       \<and> classifyCategory (title @ '' '' @ description) = Inr rc
       \<and> CategoryResult.category r = CategoryResult.category rc
       \<and> (\<forall>i < length departments.
             categoryName (CategoryResult.category r) \<in> set (categories (departments ! i))
             \<and> (\<forall>j < i. categoryName (CategoryResult.category r) \<notin> set (categories (departments ! j)))
             \<longrightarrow> suggestedDepartmentId r = Some (id (departments ! i)))
       \<and> ((\<forall>d \<in> set departments. categoryName (CategoryResult.category r) \<notin> set (categories d))
             \<longrightarrow> suggestedDepartmentId r = None)"
  proof (intro exI [of _ ?r] exI [of _ rc] conjI allI impI)
    show "classifyComplaint title description departments = Inr ?r" by (rule r)
    show "classifyCategory (title @ '' '' @ description) = Inr rc" by (rule rc)
    show "CategoryResult.category ?r = CategoryResult.category rc" by simp
  next
    fix i
    assume "i < length departments"
      and "categoryName (CategoryResult.category ?r) \<in> set (categories (departments ! i))
             \<and> (\<forall>j < i. categoryName (CategoryResult.category ?r) \<notin> set (categories (departments ! j)))"
    then show "suggestedDepartmentId ?r = Some (id (departments ! i))"
      by (intro first) simp_all
  next
    assume "\<forall>d \<in> set departments. categoryName (CategoryResult.category ?r) \<notin> set (categories d)"
    then show "suggestedDepartmentId ?r = None"
      by (intro none) simp
  qed
next
  let ?t = "''No water in building A There has been no water supply for 3 days, very urgent issue''"
  let ?p = "''no water in building a there has been no water supply for 3 days  very urgent issue''"
  have pp: "preprocessText ?t = ?p"
    by code_simp
  have s: "scoreKeywords ?p (keywordsOf water) 0 = 4" "scoreKeywords ?p (keywordsOf electrical) 0 = 0"
    "scoreKeywords ?p (keywordsOf internet) 0 = 0" "scoreKeywords ?p (keywordsOf infrastructure) 0 = 1"
    "scoreKeywords ?p (keywordsOf sanitation) 0 = 0" "scoreKeywords ?p (keywordsOf security) 0 = 0"
    "scoreKeywords ?p (keywordsOf maintenance) 0 = 0"
    by code_simp+
  have cf: "confidenceOf 4 5 = 1"
    by code_simp
  have c: "classifyCategory ?t = Inr \<lparr>CategoryResult.category = water, confidence = 1\<rparr>"
    using cf
    by (simp add: classifyCategory_def scoreLoop_categories declarationOrder_def totalScore_def
          scoreCategory_def pp s sortBy_def confidenceOf_def)
  have "sublist ''urgent'' ?p"
    by code_simp
  then have p: "determinePriority ?t water = urgent"
    by (intro urgent_included) (simp only: pp)
  have "classifyComplaint ''No water in building A''
               ''There has been no water supply for 3 days, very urgent issue''
               [\<lparr>id = ''d1'', categories = [''water''], slaHours = Num 24\<rparr>] =
          Inr \<lparr>CategoryResult.category = water, confidence = 1, priority = urgent,
               keywords = extractKeywords ?t, suggestedDepartmentId = Some ''d1''\<rparr>"
    by (subst classifyComplaint_Inr [where rc = "\<lparr>CategoryResult.category = water, confidence = 1\<rparr>"])
       (use c p in simp_all)
  then show "\<exists>r. classifyComplaint ''No water in building A''
               ''There has been no water supply for 3 days, very urgent issue''
               [\<lparr>id = ''d1'', categories = [''water''], slaHours = Num 24\<rparr>] = Inr r
          \<and> CategoryResult.category r = water \<and> priority r = urgent
          \<and> suggestedDepartmentId r = Some ''d1''"
    by simp
qed


theorem classifyComplaint_department_witness:
  "\<exists>r. classifyComplaint ''Light'' ''out''
          [\<lparr>id = ''d0'', categories = [''water'']\<rparr>,
           \<lparr>id = ''d1'', categories = [''electrical'']\<rparr>,
           \<lparr>id = ''d2'', categories = [''electrical'', ''water'']\<rparr>] = Inr r
      \<and> CategoryResult.category r = electrical
      \<and> suggestedDepartmentId r = Some ''d1''"
proof -
  let ?deps = "[\<lparr>id = ''d0'', categories = [''water'']\<rparr>,
           \<lparr>id = ''d1'', categories = [''electrical'']\<rparr>,
           \<lparr>id = ''d2'', categories = [''electrical'', ''water'']\<rparr>]"
  have c: "classifyCategory (''Light'' @ '' '' @ ''out'') =
             Inr \<lparr>CategoryResult.category = electrical, confidence = 1\<rparr>"
    by code_simp
  from classifyComplaint_department [of "''Light''" "''out''" ?deps]
  obtain r rc where r: "classifyComplaint ''Light'' ''out'' ?deps = Inr r"
    and rc: "classifyCategory (''Light'' @ '' '' @ ''out'') = Inr rc"
    and cat: "CategoryResult.category r = CategoryResult.category rc"
    and first: "\<forall>i < length ?deps.
             categoryName (CategoryResult.category r) \<in> set (categories (?deps ! i))
             \<and> (\<forall>j < i. categoryName (CategoryResult.category r) \<notin> set (categories (?deps ! j)))
             \<longrightarrow> suggestedDepartmentId r = Some (id (?deps ! i))"
    by blast
  from c rc cat have e: "CategoryResult.category r = electrical"
    by auto
  from first [rule_format, of 1] e have "suggestedDepartmentId r = Some ''d1''"
    by simp
  with r e show ?thesis by blast
qed

section \<open>SLA status\<close>

lemma hoursLeft_negative:
  "binary64 (binary64 (of_int D) / (1000 * 60 * 60)) < 0 \<longleftrightarrow> D < 0"
proof -
  have "binary64 (binary64 (of_int D) / (1000 * 60 * 60)) < 0
          \<longleftrightarrow> binary64 (of_int D) / (1000 * 60 * 60) < 0"
    by (rule binary64_neg_iff)
  also have "\<dots> \<longleftrightarrow> binary64 (of_int D) < 0"
    by (simp add: divide_less_0_iff)
  also have "\<dots> \<longleftrightarrow> (of_int D :: rat) < 0"
    by (rule binary64_neg_iff)
  finally show ?thesis by simp
qed

lemma hoursLeft_below_4:
  "binary64 (binary64 (of_int D) / (1000 * 60 * 60)) < 4 \<longleftrightarrow> D < 14400000"
proof
  assume "D < 14400000"
  then have "(of_int D :: rat) \<le> of_int 14399999" by (simp only: of_int_le_iff)
  then have "binary64 (of_int D) \<le> of_int 14399999"
    by (rule binary64_le_int) simp
  then have "binary64 (of_int D) / (1000 * 60 * 60) \<le> 14399999 / 3600000"
    by (simp add: field_simps)
  also have "\<dots> \<le> of_int (2 ^ 32 - 1) * 2 powi (- 30)"
    by (simp add: power_int_minus_divide)
  finally have "binary64 (binary64 (of_int D) / (1000 * 60 * 60)) \<le> of_int (2 ^ 32 - 1) * 2 powi (- 30)"
    by (rule binary64_le) simp
  also have "\<dots> < (4::rat)"
    by (simp add: power_int_minus_divide)
  finally show "binary64 (binary64 (of_int D) / (1000 * 60 * 60)) < 4" .
next
  assume a: "binary64 (binary64 (of_int D) / (1000 * 60 * 60)) < 4"
  show "D < 14400000"
  proof (rule ccontr)
    assume "\<not> D < 14400000"
    then have "(of_int 14400000 :: rat) \<le> of_int D" by (simp only: of_int_le_iff)
    then have "of_int 14400000 \<le> binary64 (of_int D)"
      by (rule binary64_ge_int) simp
    then have "of_int 4 \<le> binary64 (of_int D) / (1000 * 60 * 60)"
      by (simp add: field_simps)
    then have "of_int 4 \<le> binary64 (binary64 (of_int D) / (1000 * 60 * 60))"
      by (rule binary64_ge_int) simp
    with a show False by simp
  qed
qed

lemma getSLAStatus_valid:
  "getSLAStatus (DateValue d) now =
     (if d < now then breached else if d - now < 4 * msPerHour then warning else ok)"
proof -
  have "(of_int d :: rat) - of_int now = of_int (d - now)" by simp
  then show ?thesis
    unfolding getSLAStatus_def Let_def Date.case
    by (simp only: hoursLeft_negative hoursLeft_below_4) (simp add: msPerHour_def)
qed

text \<open>
  C5. For a valid deadline, \<open>getSLAStatus\<close> is \<open>breached\<close> exactly when now is after the
  deadline, otherwise \<open>warning\<close> exactly when less than 4 hours remain, otherwise \<open>ok\<close>.
  At the deadline itself the result is \<open>warning\<close>, one second later \<open>breached\<close>, and with
  exactly 4 hours left \<open>ok\<close>.
\<close>

theorem getSLAStatus_thresholds:
  "getSLAStatus (DateValue d) now =
     (if now > d then breached else if d - now < 4 * msPerHour then warning else ok)
   \<and> getSLAStatus (DateValue d) d = warning
   \<and> getSLAStatus (DateValue d) (d + msPerSecond) = breached
   \<and> getSLAStatus (DateValue (now + 4 * msPerHour)) now = ok"
  by (simp add: getSLAStatus_valid msPerHour_def msPerSecond_def)

section \<open>SLA deadline\<close>

lemma time_decomposition:
  "Day t * msPerDay + HourFromTime t * msPerHour + MinFromTime t * msPerMinute
     + SecFromTime t * msPerSecond + msFromTime t = t"
proof -
  define a where "a = t div 1000"
  define b where "b = a div 60"
  define c where "c = b div 60"
  have m: "t div 60000 = b" "t div 3600000 = c" "t div 86400000 = c div 24"
    using zdiv_zmult2_eq [of 60 "t" 1000] zdiv_zmult2_eq [of 60 "t" 60000]
      zdiv_zmult2_eq [of 24 "t" 3600000]
    by (simp_all add: a_def b_def c_def)
  define r0 where "r0 = t mod 1000"
  define r1 where "r1 = a mod 60"
  define r2 where "r2 = b mod 60"
  define r3 where "r3 = c mod 24"
  define q where "q = c div 24"
  have "t = 1000 * a + r0" by (simp add: a_def r0_def)
  moreover have "a = 60 * b + r1" by (simp add: b_def r1_def)
  moreover have "b = 60 * c + r2" by (simp add: c_def r2_def)
  moreover have "c = 24 * q + r3" by (simp add: q_def r3_def)
  ultimately have "q * 86400000 + r3 * 3600000 + r2 * 60000 + r1 * 1000 + r0 = t"
    by linarith
  then have "(c div 24) * 86400000 + (c mod 24) * 3600000 + (b mod 60) * 60000
                     + (a mod 60) * 1000 + t mod 1000 = t"
    by (simp only: q_def r0_def r1_def r2_def r3_def)
  then show ?thesis
    by (simp add: Day_def HourFromTime_def MinFromTime_def SecFromTime_def msFromTime_def
          msPerDay_def msPerHour_def msPerMinute_def msPerSecond_def m a_def [symmetric])
qed

lemma time_fields_bounds:
  "0 \<le> HourFromTime t" "HourFromTime t < 24" "0 \<le> MinFromTime t" "MinFromTime t < 60"
  "0 \<le> SecFromTime t" "SecFromTime t < 60" "0 \<le> msFromTime t" "msFromTime t < 1000"
  by (simp_all add: HourFromTime_def MinFromTime_def SecFromTime_def msFromTime_def
        msPerSecond_def)

lemma ToIntegerOrInfinity_of_int: "ToIntegerOrInfinity (of_int k) = k"
  by (simp add: ToIntegerOrInfinity_def)

lemma binary64_int_mult:
  assumes "\<bar>a * b\<bar> \<le> 2 ^ 53"
  shows "binary64 (of_int a * of_int b) = of_int (a * b)"
  using binary64_of_int [OF assms] by simp

lemma binary64_int_add:
  assumes "\<bar>a + b\<bar> \<le> 2 ^ 53"
  shows "binary64 (of_int a + of_int b) = of_int (a + b)"
  using binary64_of_int [OF assms] by simp

lemma binary64_int_diff:
  assumes "\<bar>a - b\<bar> \<le> 2 ^ 53"
  shows "binary64 (of_int a - of_int b) = of_int (a - b)"
  using binary64_of_int [OF assms] by simp

text \<open>
  \<open>setHours\<close> on a valid Date, with an hour whose integer part is \<open>k\<close>: the local time
  moves by the difference between \<open>k\<close> and the local hour, and the result is read back
  with the offset that holds at the new local time.
\<close>

lemma setHours_local:
  fixes LocalTZA :: "int \<Rightarrow> bool \<Rightarrow> int"
  defines "gh t \<equiv> HourFromTime (t + LocalTZA t True)"
  assumes t: "\<bar>t\<bar> \<le> 8640000000000000"
    and k: "ToIntegerOrInfinity h = k" "\<bar>k\<bar> \<le> 2 ^ 31 + 24"
    and z: "\<bar>LocalTZA t True\<bar> \<le> msPerDay"
    and z': "\<bar>LocalTZA (t + LocalTZA t True + (k - gh t) * msPerHour) False\<bar> \<le> msPerDay"
    and r: "\<bar>t + LocalTZA t True + (k - gh t) * msPerHour
              - LocalTZA (t + LocalTZA t True + (k - gh t) * msPerHour) False\<bar>
            \<le> 8640000000000000"
  shows "setHours LocalTZA (DateValue t) (Num h) =
           DateValue (t + LocalTZA t True + (k - gh t) * msPerHour
                        - LocalTZA (t + LocalTZA t True + (k - gh t) * msPerHour) False)"
proof -
  define tza where "tza = LocalTZA t True"
  define lt where "lt = t + tza"
  define g where "g = HourFromTime lt"
  define mi where "mi = MinFromTime lt"
  define se where "se = SecFromTime lt"
  define ms where "ms = msFromTime lt"
  define dy where "dy = Day lt"
  have g: "gh t = g" by (simp add: gh_def g_def lt_def tza_def)
  note b = time_fields_bounds [of lt, folded g_def mi_def se_def ms_def]
  have dec: "dy * msPerDay + g * msPerHour + mi * msPerMinute + se * msPerSecond + ms = lt"
    unfolding dy_def g_def mi_def se_def ms_def by (rule time_decomposition)
  have ltb: "\<bar>lt\<bar> \<le> 8640000086400000"
    using t z by (simp add: lt_def tza_def msPerDay_def)
  have kb: "\<bar>k * msPerHour\<bar> \<le> 7730941219200000"
    using k(2) by (simp add: msPerHour_def)
  \<comment> \<open>the time within the day\<close>
  define T where "T = k * msPerHour + mi * msPerMinute + se * msPerSecond + ms"
  have mt: "MakeTime h mi se ms = of_int T"
  proof -
    have 1: "binary64 (of_int k * of_int msPerHour) = of_int (k * msPerHour)"
      using kb by (intro binary64_int_mult) simp
    have 2: "binary64 (of_int mi * of_int msPerMinute) = of_int (mi * msPerMinute)"
      using b by (intro binary64_int_mult) (simp add: msPerMinute_def)
    have 3: "binary64 (of_int se * of_int msPerSecond) = of_int (se * msPerSecond)"
      using b by (intro binary64_int_mult) (simp add: msPerSecond_def)
    have 4: "binary64 (of_int (k * msPerHour) + of_int (mi * msPerMinute)) =
               of_int (k * msPerHour + mi * msPerMinute)"
      using b kb by (intro binary64_int_add) (simp add: msPerMinute_def)
    have 5: "binary64 (of_int (k * msPerHour + mi * msPerMinute)
                         + of_int (se * msPerSecond)) =
               of_int (k * msPerHour + mi * msPerMinute + se * msPerSecond)"
      using b kb
      by (intro binary64_int_add) (simp add: msPerMinute_def msPerSecond_def)
    have 6: "binary64 (of_int (k * msPerHour + mi * msPerMinute + se * msPerSecond)
                         + of_int ms) = of_int T"
      unfolding T_def using b kb
      by (intro binary64_int_add) (simp add: msPerMinute_def msPerSecond_def)
    show ?thesis
      unfolding MakeTime_def Let_def k(1) 1 2 3 4 5 6 ..
  qed
  \<comment> \<open>the local time of the result\<close>
  define X where "X = lt + (k - g) * msPerHour"
  define off where "off = LocalTZA X False"
  have ob: "\<bar>off\<bar> \<le> 86400000"
    using z' by (simp add: off_def X_def g lt_def tza_def msPerDay_def)
  have rb: "\<bar>X - off\<bar> \<le> 8640000000000000"
    using r by (simp add: off_def X_def g lt_def tza_def)
  have sum: "dy * msPerDay + T = X"
    using dec by (simp add: T_def X_def algebra_simps)
  have md: "MakeDate dy (of_int T) = of_int X"
  proof -
    have "dy * msPerDay = lt - (g * msPerHour + mi * msPerMinute + se * msPerSecond + ms)"
      using dec by simp
    then have "\<bar>dy * msPerDay\<bar> \<le> 2 ^ 53"
      using b ltb by (simp add: msPerHour_def msPerMinute_def msPerSecond_def)
    then have 1: "binary64 (of_int dy * of_int msPerDay) = of_int (dy * msPerDay)"
      by (rule binary64_int_mult)
    have "\<bar>dy * msPerDay + T\<bar> \<le> 2 ^ 53"
      unfolding sum using rb ob by simp
    then have 2: "binary64 (of_int (dy * msPerDay) + of_int T) = of_int (dy * msPerDay + T)"
      by (rule binary64_int_add)
    show ?thesis
      unfolding MakeDate_def 1 2 sum ..
  qed
  \<comment> \<open>back to UTC\<close>
  have utc: "UTC LocalTZA (of_int X) = of_int (X - off)"
  proof -
    have "\<bar>X - off\<bar> \<le> 2 ^ 53"
      using rb by simp
    then have "binary64 (of_int X - of_int off) = of_int (X - off)"
      by (rule binary64_int_diff)
    then show ?thesis
      unfolding UTC_def floor_of_int off_def [symmetric] .
  qed
  have clip: "TimeClip (of_int (X - off)) = DateValue (X - off)"
  proof -
    define Y where "Y = X - off"
    have "\<bar>of_int Y :: rat\<bar> = of_int \<bar>Y\<bar>" by simp
    also have "\<dots> \<le> of_int 8640000000000000"
      using rb unfolding Y_def by (simp only: of_int_le_iff)
    finally have "\<not> \<bar>of_int Y :: rat\<bar> > 8640000000000000" by simp
    then show ?thesis
      unfolding Y_def [symmetric] TimeClip_def ToIntegerOrInfinity_of_int by simp
  qed
  have "setHours LocalTZA (DateValue t) (Num h) = DateValue (X - off)"
    unfolding setHours_def Let_def Date.case number.case
      LocalTime_def tza_def [symmetric] lt_def [symmetric]
      dy_def [symmetric] mi_def [symmetric] se_def [symmetric] ms_def [symmetric]
      mt md utc clip ..
  then show ?thesis
    by (simp add: off_def X_def g lt_def tza_def)
qed

lemma setHours_valid:
  fixes LocalTZA :: "int \<Rightarrow> bool \<Rightarrow> int"
  defines "gh t \<equiv> HourFromTime (t + LocalTZA t True)"
  assumes t: "\<bar>t\<bar> \<le> 8640000000000000"
    and k: "ToIntegerOrInfinity h = k" "\<bar>k\<bar> \<le> 2 ^ 31 + 24"
    and z: "\<bar>LocalTZA t True\<bar> \<le> msPerDay"
    and z': "LocalTZA (t + LocalTZA t True + (k - gh t) * msPerHour) False = LocalTZA t True"
    and r: "\<bar>t + (k - gh t) * msPerHour\<bar> \<le> 8640000000000000"
  shows "setHours LocalTZA (DateValue t) (Num h) = DateValue (t + (k - gh t) * msPerHour)"
proof -
  have "setHours LocalTZA (DateValue t) (Num h) =
           DateValue (t + LocalTZA t True
                        + (k - HourFromTime (t + LocalTZA t True)) * msPerHour
                        - LocalTZA (t + LocalTZA t True
                             + (k - HourFromTime (t + LocalTZA t True)) * msPerHour) False)"
    using t k z z' r by (intro setHours_local) (simp_all add: gh_def)
  then show ?thesis
    using z' by (simp add: gh_def)
qed

lemma calculateSLADeadline_setHours:
  "calculateSLADeadline LocalTZA (DateValue t) (Num s) =
     setHours LocalTZA (DateValue t)
       (Num (binary64 (of_int (HourFromTime (t + LocalTZA t True)) + s)))"
  by (simp add: calculateSLADeadline_def getHours_def LocalTime_def)

lemma calculateSLADeadline_int:
  assumes t: "\<bar>t\<bar> \<le> 8640000000000000"
    and n: "\<bar>n\<bar> \<le> 2 ^ 31"
    and z: "\<bar>LocalTZA t True\<bar> \<le> msPerDay"
    and z': "LocalTZA (t + LocalTZA t True + n * msPerHour) False = LocalTZA t True"
    and r: "\<bar>t + n * msPerHour\<bar> \<le> 8640000000000000"
  shows "calculateSLADeadline LocalTZA (DateValue t) (Num (of_int n)) =
           DateValue (t + n * msPerHour)"
proof -
  define g where "g = HourFromTime (t + LocalTZA t True)"
  note b = time_fields_bounds(1,2) [of "t + LocalTZA t True", folded g_def]
  have "\<bar>g + n\<bar> \<le> 2 ^ 53" using b n by simp
  then have hour: "binary64 (of_int g + of_int n) = of_int (g + n)"
    by (rule binary64_int_add)
  have "setHours LocalTZA (DateValue t) (Num (of_int (g + n))) =
          DateValue (t + ((g + n) - HourFromTime (t + LocalTZA t True)) * msPerHour)"
  proof (rule setHours_valid)
    show "ToIntegerOrInfinity (of_int (g + n)) = g + n"
      by (rule ToIntegerOrInfinity_of_int)
    show "\<bar>g + n\<bar> \<le> 2 ^ 31 + 24" using b n by simp
    show "LocalTZA (t + LocalTZA t True
             + (g + n - HourFromTime (t + LocalTZA t True)) * msPerHour) False
           = LocalTZA t True"
      using z' by (simp add: g_def)
    show "\<bar>t + (g + n - HourFromTime (t + LocalTZA t True)) * msPerHour\<bar>
            \<le> 8640000000000000"
      using r by (simp add: g_def)
  qed (fact t z)+
  then show ?thesis
    unfolding calculateSLADeadline_setHours g_def [symmetric] hour by (simp add: g_def)
qed

text \<open>
  \<open>setHours\<close> truncates the hour it is given, so a \<open>slaHours\<close> of one and a half on a
  complaint created at 22:13:20 UTC gives a deadline one hour later, not ninety minutes
  later.
\<close>

lemma calculateSLADeadline_fraction:
  "calculateSLADeadline (fixedZone 0) (DateValue 1700000000000) (Num (3 / 2))
     \<noteq> DateValue (1700000000000 + 5400000)"
proof -
  have g: "HourFromTime (1700000000000 + fixedZone 0 1700000000000 True) = 22"
    by (simp add: HourFromTime_def fixedZone_def msPerHour_def)
  have "binary64 (of_int 47 * 2 powi (- 1)) = of_int 47 * 2 powi (- 1)"
    by (rule binary64_exact) simp
  then have hour: "binary64 (of_int 22 + 3 / 2) = 47 / 2"
    by (simp add: power_int_minus_divide)
  have fl: "\<lfloor>47 / 2 :: rat\<rfloor> = 23"
    by (rule floor_unique) simp_all
  have g': "HourFromTime 1700000000000 = 22"
    using g by (simp add: fixedZone_def)
  have "setHours (fixedZone 0) (DateValue 1700000000000) (Num (47 / 2)) =
          DateValue (1700000000000
            + (23 - HourFromTime (1700000000000 + fixedZone 0 1700000000000 True)) * msPerHour)"
    by (rule setHours_valid)
       (simp_all add: ToIntegerOrInfinity_def fl g' fixedZone_def msPerHour_def msPerDay_def)
  then have "calculateSLADeadline (fixedZone 0) (DateValue 1700000000000) (Num (3 / 2))
          = DateValue 1700003600000"
    unfolding calculateSLADeadline_setHours g hour by (simp add: msPerHour_def)
  then show ?thesis by simp
qed

text \<open>
  Where the local offset at the deadline is the offset at \<open>createdAt\<close>, a whole number
  of hours is added exactly, and the status is \<open>ok\<close> 5 hours and \<open>warning\<close> 3 hours before
  the deadline.
\<close>

lemma calculateSLADeadline_same_offset:
  assumes "\<bar>t\<bar> \<le> 8640000000000000"
    and "\<bar>n\<bar> \<le> 2 ^ 31"
    and "\<bar>LocalTZA t True\<bar> \<le> msPerDay"
    and "LocalTZA (t + LocalTZA t True + n * msPerHour) False = LocalTZA t True"
    and "\<bar>t + n * msPerHour\<bar> \<le> 8640000000000000"
  shows "calculateSLADeadline LocalTZA (DateValue t) (Num (of_int n)) =
           DateValue (t + n * msPerHour)
       \<and> (n \<le> 0 \<longrightarrow> t + n * msPerHour \<le> t)
       \<and> getSLAStatus (calculateSLADeadline LocalTZA (DateValue t) (Num (of_int n)))
             (t + n * msPerHour - 5 * msPerHour) = ok
       \<and> getSLAStatus (calculateSLADeadline LocalTZA (DateValue t) (Num (of_int n)))
             (t + n * msPerHour - 3 * msPerHour) = warning"
proof -
  have d: "calculateSLADeadline LocalTZA (DateValue t) (Num (of_int n)) =
             DateValue (t + n * msPerHour)"
    using assms by (rule calculateSLADeadline_int)
  have "n \<le> 0 \<longrightarrow> t + n * msPerHour \<le> t"
    by (simp add: msPerHour_def)
  moreover have "getSLAStatus (DateValue (t + n * msPerHour))
                   (t + n * msPerHour - 5 * msPerHour) = ok"
    by (simp add: getSLAStatus_valid msPerHour_def)
  moreover have "getSLAStatus (DateValue (t + n * msPerHour))
                   (t + n * msPerHour - 3 * msPerHour) = warning"
    by (simp add: getSLAStatus_valid msPerHour_def)
  ultimately show ?thesis
    unfolding d by simp
qed

text \<open>
  C7. \<open>calculateSLADeadline\<close> is to return \<open>createdAt\<close> plus \<open>slaHours\<close> hours, and
  \<open>getSLAStatus\<close> 3 hours before that deadline is to be \<open>warning\<close>. The code sets the hour
  of the local wall clock instead of adding elapsed time, and misses both where the local
  offset changes in between: in New York, 24 hours from 12:00 on 4 November 2023, the day
  before daylight saving time ends, give a deadline 25 hours later, and 3 hours before
  the deadline of the claim the status is \<open>ok\<close>.
\<close>

theorem calculateSLADeadline_dst:
  "calculateSLADeadline newYork2023 (DateValue 1699113600000) (Num 24) =
     DateValue (1699113600000 + 25 * msPerHour)
   \<and> getSLAStatus (calculateSLADeadline newYork2023 (DateValue 1699113600000) (Num 24))
         (1699113600000 + 24 * msPerHour - 3 * msPerHour) = ok"
proof -
  have g: "HourFromTime (1699113600000 + newYork2023 1699113600000 True) = 12"
    by (simp add: HourFromTime_def newYork2023_def msPerHour_def)
  have "binary64 (of_int (12 + 24)) = of_int (12 + 24)"
    by (rule binary64_of_int) simp
  then have hour: "binary64 (of_int 12 + 24) = 36"
    by simp
  have "setHours newYork2023 (DateValue 1699113600000) (Num 36) =
          DateValue (1699113600000 + newYork2023 1699113600000 True
            + (36 - HourFromTime (1699113600000 + newYork2023 1699113600000 True)) * msPerHour
            - newYork2023 (1699113600000 + newYork2023 1699113600000 True
                 + (36 - HourFromTime (1699113600000 + newYork2023 1699113600000 True))
                     * msPerHour) False)"
    by (rule setHours_local)
       (simp_all add: ToIntegerOrInfinity_def g, simp_all add: newYork2023_def msPerHour_def msPerDay_def)
  then have d: "calculateSLADeadline newYork2023 (DateValue 1699113600000) (Num 24) =
     DateValue 1699203600000"
    unfolding calculateSLADeadline_setHours g hour
    by (simp add: newYork2023_def msPerHour_def)
  have "getSLAStatus (DateValue 1699203600000) 1699189200000 = ok"
    by (simp add: getSLAStatus_valid msPerHour_def)
  with d show ?thesis
    by (simp add: msPerHour_def)
qed

section \<open>Confidence\<close>

lemma Math_round_bounds:
  assumes "0 \<le> y" "y \<le> 100"
  shows "0 \<le> Math_round y" "Math_round y \<le> 100"
proof -
  from assms(1) show "0 \<le> Math_round y"
    by (simp add: Math_round_def)
  from assms(2) have "y + 1 / 2 < of_int 101" by simp
  then have "\<lfloor>y + 1 / 2\<rfloor> < 101" by (simp only: floor_less_iff)
  then show "Math_round y \<le> 100" by (simp add: Math_round_def)
qed

lemma confidenceOf_bounds: "0 \<le> confidenceOf a b \<and> confidenceOf a b \<le> 1"
proof -
  define q where "q = binary64 (of_nat a / max (binary64 (of_nat b * binary64 (8 / 10))) 1)"
  define c where "c = min q 1"
  define k where "k = Math_round (binary64 (c * 100))"
  have "0 \<le> of_nat a / max (binary64 (of_nat b * binary64 (8 / 10))) 1"
    by (intro divide_nonneg_nonneg) simp_all
  then have "0 \<le> q" unfolding q_def by (rule binary64_nonneg)
  then have c: "0 \<le> c" "c \<le> 1" by (simp_all add: c_def)
  then have "0 \<le> c * 100" "c * 100 \<le> of_int 100" by simp_all
  then have "0 \<le> binary64 (c * 100)" "binary64 (c * 100) \<le> of_int 100"
    by (intro binary64_nonneg binary64_le_int; simp)+
  then have k: "0 \<le> k" "k \<le> 100"
    unfolding k_def by (simp_all add: Math_round_bounds)
  then have "0 \<le> (of_int k :: rat) / 100" "(of_int k :: rat) / 100 \<le> of_int 1"
    by simp_all
  then have "0 \<le> binary64 (of_int k / 100)" "binary64 (of_int k / 100) \<le> of_int 1"
    by (intro binary64_nonneg binary64_le_int; simp)+
  then show ?thesis
    by (simp add: confidenceOf_def q_def c_def k_def)
qed

lemma literal_bounds: "0 \<le> binary64 (3 / 10) \<and> binary64 (3 / 10) \<le> 1"
proof -
  have "(3 / 10 :: rat) \<le> of_int 1" by simp
  then have "binary64 (3 / 10) \<le> of_int 1" by (rule binary64_le_int) simp
  then show ?thesis by (simp add: binary64_nonneg)
qed

lemma totalScore_points:
  "totalScore text =
     sum_list (map (\<lambda>c. sum_list (map (keywordPoints (preprocessText text)) (keywordsOf c)))
       declarationOrder)"
  unfolding totalScore_def by (rule arg_cong [where f = sum_list]) (simp add: scoreCategory_sum)

lemma classifyCategory_bounds:
  "\<exists>r. classifyCategory text = Inr r \<and> 0 \<le> confidence r \<and> confidence r \<le> 1"
proof (cases "totalScore text = 0")
  case True
  then show ?thesis by (simp add: classifyCategory_zero literal_bounds)
next
  case False
  from classifyCategory_pos [OF this] show ?thesis
    using confidenceOf_bounds by fastforce
qed

lemma classifyCategory_formula:
  assumes "totalScore text \<noteq> 0"
  shows "\<exists>rc. classifyCategory text = Inr rc
         \<and> scoreCategory text (CategoryResult.category rc) =
             Max (scoreCategory text ` set declarationOrder)
         \<and> confidence rc =
             confidenceOf (scoreCategory text (CategoryResult.category rc)) (totalScore text)"
proof -
  from classifyCategory_pos [OF assms] obtain topCat before after where
    r: "classifyCategory text =
          Inr \<lparr>CategoryResult.category = topCat,
               confidence = confidenceOf (scoreCategory text topCat) (totalScore text)\<rparr>"
    and order: "declarationOrder = before @ topCat # after"
    and b: "\<forall>c \<in> set before. scoreCategory text c < scoreCategory text topCat"
    and a: "\<forall>c \<in> set after. scoreCategory text c \<le> scoreCategory text topCat"
    by blast
  from a b have "\<forall>c \<in> set (before @ topCat # after). scoreCategory text c \<le> scoreCategory text topCat"
    by auto
  with order have le: "\<forall>c \<in> set declarationOrder. scoreCategory text c \<le> scoreCategory text topCat"
    by simp
  have "topCat \<in> set declarationOrder" unfolding order by simp
  with le have "Max (scoreCategory text ` set declarationOrder) = scoreCategory text topCat"
    by (intro Max_eqI) auto
  with r show ?thesis by simp
qed

text \<open>
  C3, as stated, fails: the confidence is not the exact value of the formula rounded to 2
  decimal places. Two texts, one with a top score of 3 out of 6 and one with 2 out of 4,
  have the same exact value 0.625 and the confidences 0.62 and 0.63: the product of 6 and
  0.8 is rounded to a Number above 4.8, so the first quotient falls below 0.625.
\<close>

theorem confidence_exact_counterexample:
  "exactQuotient (scoreCategory ''water pipe leak road wall floor'' water)
       (totalScore ''water pipe leak road wall floor'') = 5 / 8
   \<and> exactQuotient (scoreCategory ''water pipe road wall'' water)
       (totalScore ''water pipe road wall'') = 5 / 8
   \<and> classifyCategory ''water pipe leak road wall floor'' =
       Inr \<lparr>CategoryResult.category = water, confidence = binary64 (62 / 100)\<rparr>
   \<and> classifyCategory ''water pipe road wall'' =
       Inr \<lparr>CategoryResult.category = water, confidence = binary64 (63 / 100)\<rparr>
   \<and> binary64 (62 / 100) \<noteq> binary64 (63 / 100)"
proof -
  let ?t1 = "''water pipe leak road wall floor''"
  let ?t2 = "''water pipe road wall''"
  have s1: "map (scoreCategory ?t1) declarationOrder = [3, 0, 0, 3, 0, 0, 0]"
    by code_simp
  have s2: "map (scoreCategory ?t2) declarationOrder = [2, 0, 0, 2, 0, 0, 0]"
    by code_simp
  have t1: "totalScore ?t1 = 6" unfolding totalScore_def s1 by simp
  have t2: "totalScore ?t2 = 4" unfolding totalScore_def s2 by simp
  from s1 have w1: "scoreCategory ?t1 water = 3" by (simp add: declarationOrder_def)
  from s2 have w2: "scoreCategory ?t2 water = 2" by (simp add: declarationOrder_def)
  have c: "confidenceOf 3 6 = binary64 (62 / 100)" "confidenceOf 2 4 = binary64 (63 / 100)"
    by code_simp+
  have r1: "classifyCategory ?t1 =
       Inr \<lparr>CategoryResult.category = water, confidence = binary64 (62 / 100)\<rparr>"
    using s1 c(1)
    by (simp add: classifyCategory_def scoreLoop_categories declarationOrder_def t1
          sortBy_def confidenceOf_def)
  have r2: "classifyCategory ?t2 =
       Inr \<lparr>CategoryResult.category = water, confidence = binary64 (63 / 100)\<rparr>"
    using s2 c(2)
    by (simp add: classifyCategory_def scoreLoop_categories declarationOrder_def t2
          sortBy_def confidenceOf_def)
  have d: "binary64 (62 / 100) \<noteq> binary64 (63 / 100)"
    by code_simp
  have e: "exactQuotient 3 6 = 5 / 8" "exactQuotient 2 4 = 5 / 8"
    by (simp_all add: exactQuotient_def)
  from e r1 r2 d show ?thesis
    unfolding w1 w2 t1 t2 by simp
qed

text \<open>
  C3, amended. For a text whose total keyword score is not zero, the confidence returned
  by \<open>classifyCategory\<close> is min(topScore / max(total \<times> 0.8, 1), 1) rounded to 2 decimal
  places, each operation of the formula being rounded to binary64 in the order of the
  source (the product, the quotient, the product with 100, \<open>Math.round\<close>, the quotient by
  100); topScore is the score of the winning category, the largest of the scores, and
  total is the sum of the scores of all categories, 2 points for each phrase of several
  words that matches and 1 for each single word. \<open>classifyComplaint\<close> returns this
  confidence for the text made of title, space and description. For every input the
  confidence of \<open>classifyCategory\<close> and of \<open>classifyComplaint\<close> lies between 0 and 1.
\<close>

theorem classifyCategory_confidence:
  "(totalScore text \<noteq> 0 \<longrightarrow>
      (\<exists>r. classifyCategory text = Inr r
         \<and> scoreCategory text (CategoryResult.category r) =
             Max (scoreCategory text ` set declarationOrder)
         \<and> confidence r =
             binary64 (of_int (Math_round (binary64
               (min (binary64 (of_nat (scoreCategory text (CategoryResult.category r))
                       / max (binary64 (of_nat (totalScore text) * binary64 (8 / 10))) 1)) 1
                  * 100))) / 100)))
   \<and> (totalScore (title @ '' '' @ description) \<noteq> 0 \<longrightarrow>
      (\<exists>r. classifyComplaint title description departments = Inr r
         \<and> scoreCategory (title @ '' '' @ description) (CategoryResult.category r) =
             Max (scoreCategory (title @ '' '' @ description) ` set declarationOrder)
         \<and> confidence r =
             binary64 (of_int (Math_round (binary64
               (min (binary64
                       (of_nat (scoreCategory (title @ '' '' @ description)
                                  (CategoryResult.category r))
                       / max (binary64 (of_nat (totalScore (title @ '' '' @ description))
                                          * binary64 (8 / 10))) 1)) 1
                  * 100))) / 100)))
   \<and> totalScore text =
       sum_list (map (\<lambda>c. sum_list (map (keywordPoints (preprocessText text)) (keywordsOf c)))
         declarationOrder)
   \<and> (\<exists>r. classifyCategory text = Inr r \<and> 0 \<le> confidence r \<and> confidence r \<le> 1)
   \<and> (\<exists>r rc. classifyComplaint title description departments = Inr r
          \<and> classifyCategory (title @ '' '' @ description) = Inr rc
          \<and> confidence r = confidence rc
          \<and> 0 \<le> confidence r \<and> confidence r \<le> 1)"
proof (intro conjI impI)
  assume "totalScore text \<noteq> 0"
  from classifyCategory_formula [OF this]
  show "\<exists>r. classifyCategory text = Inr r
         \<and> scoreCategory text (CategoryResult.category r) =
             Max (scoreCategory text ` set declarationOrder)
         \<and> confidence r =
             binary64 (of_int (Math_round (binary64
               (min (binary64 (of_nat (scoreCategory text (CategoryResult.category r))
                       / max (binary64 (of_nat (totalScore text) * binary64 (8 / 10))) 1)) 1
                  * 100))) / 100)"
    by (simp add: confidenceOf_def)
next
  let ?text = "title @ '' '' @ description"
  assume "totalScore ?text \<noteq> 0"
  from classifyCategory_formula [OF this] obtain rc where
    rc: "classifyCategory ?text = Inr rc"
    and m: "scoreCategory ?text (CategoryResult.category rc) =
             Max (scoreCategory ?text ` set declarationOrder)"
    and c: "confidence rc =
             confidenceOf (scoreCategory ?text (CategoryResult.category rc)) (totalScore ?text)"
    by blast
  from classifyComplaint_Inr [OF rc, of departments] m c
  show "\<exists>r. classifyComplaint title description departments = Inr r
         \<and> scoreCategory ?text (CategoryResult.category r) =
             Max (scoreCategory ?text ` set declarationOrder)
         \<and> confidence r =
             binary64 (of_int (Math_round (binary64
               (min (binary64
                       (of_nat (scoreCategory ?text (CategoryResult.category r))
                       / max (binary64 (of_nat (totalScore ?text) * binary64 (8 / 10))) 1)) 1
                  * 100))) / 100)"
    by (simp add: confidenceOf_def)
next
  show "totalScore text =
       sum_list (map (\<lambda>c. sum_list (map (keywordPoints (preprocessText text)) (keywordsOf c)))
         declarationOrder)"
    by (rule totalScore_points)
next
  show "\<exists>r. classifyCategory text = Inr r \<and> 0 \<le> confidence r \<and> confidence r \<le> 1"
    by (rule classifyCategory_bounds)
next
  from classifyCategory_bounds obtain rc where
    rc: "classifyCategory (title @ '' '' @ description) = Inr rc"
    and bounds: "0 \<le> confidence rc" "confidence rc \<le> 1"
    by blast
  from classifyComplaint_Inr [OF rc, of departments] rc bounds
  show "\<exists>r rc. classifyComplaint title description departments = Inr r
          \<and> classifyCategory (title @ '' '' @ description) = Inr rc
          \<and> confidence r = confidence rc
          \<and> 0 \<le> confidence r \<and> confidence r \<le> 1"
    by simp
qed

theorem classifyCategory_confidence_witness:
  "(\<exists>r. classifyCategory ''water pipe road wall'' = Inr r \<and> confidence r = binary64 (63 / 100))
   \<and> (\<exists>r. classifyComplaint ''water pipe'' ''road wall'' ([] :: Department list) = Inr r
          \<and> confidence r = binary64 (63 / 100))"
proof -
  let ?t = "''water pipe road wall''"
  have scores: "map (scoreCategory ?t) declarationOrder = [2, 0, 0, 2, 0, 0, 0]"
    by code_simp
  have "scoreCategory ?t ` set declarationOrder = set (map (scoreCategory ?t) declarationOrder)"
    by simp
  then have m: "Max (scoreCategory ?t ` set declarationOrder) = 2"
    unfolding scores by simp
  have t: "totalScore ?t = 4"
    unfolding totalScore_def scores by simp
  have f: "binary64 (of_int (Math_round (binary64
       (min (binary64 (of_nat 2 / max (binary64 (of_nat 4 * binary64 (8 / 10))) 1)) 1
          * 100))) / 100) = binary64 (63 / 100)"
    by code_simp
  have nz: "totalScore ?t \<noteq> 0"
    unfolding t by simp
  have nz': "totalScore (''water pipe'' @ '' '' @ ''road wall'') \<noteq> 0"
    using nz by simp
  note inst = classifyCategory_confidence [of ?t "''water pipe''" "''road wall''"
      "[] :: Department list"]
  from inst [THEN conjunct1, rule_format, OF nz]
  obtain r where
    r: "classifyCategory ?t = Inr r"
    and s: "scoreCategory ?t (CategoryResult.category r) = Max (scoreCategory ?t ` set declarationOrder)"
    and c: "confidence r =
       binary64 (of_int (Math_round (binary64
         (min (binary64 (of_nat (scoreCategory ?t (CategoryResult.category r))
                 / max (binary64 (of_nat (totalScore ?t) * binary64 (8 / 10))) 1)) 1
            * 100))) / 100)"
    by blast
  have 1: "confidence r = binary64 (63 / 100)"
    unfolding c s m t by (rule f)
  from inst [THEN conjunct2, THEN conjunct1, rule_format, OF nz']
  obtain r' where
    r': "classifyComplaint ''water pipe'' ''road wall'' ([] :: Department list) = Inr r'"
    and s': "scoreCategory ?t (CategoryResult.category r') = Max (scoreCategory ?t ` set declarationOrder)"
    and c': "confidence r' =
       binary64 (of_int (Math_round (binary64
         (min (binary64 (of_nat (scoreCategory ?t (CategoryResult.category r'))
                 / max (binary64 (of_nat (totalScore ?t) * binary64 (8 / 10))) 1)) 1
            * 100))) / 100)"
    by auto
  have 2: "confidence r' = binary64 (63 / 100)"
    unfolding c' s' m t by (rule f)
  from r 1 r' 2 show ?thesis by blast
qed

section \<open>Pattern insights\<close>

lemma map_of_assign: "map_of (assign kvs k v) = (map_of kvs)(k \<mapsto> v)"
  by (induction kvs) (auto simp: fun_eq_iff)

lemma keys_assign: "fst ` set (assign kvs k v) = insert k (fst ` set kvs)"
  by (simp add: dom_map_of_conv_image_fst [symmetric] map_of_assign)

lemma distinct_assign:
  "distinct (map fst kvs) \<Longrightarrow> distinct (map fst (assign kvs k v))"
proof (induction kvs)
  case Nil
  then show ?case by simp
next
  case (Cons a kvs)
  obtain k' v' where a: "a = (k', v')" by (cases a)
  from Cons show ?case
    by (auto simp: a keys_assign)
qed

text \<open>The counts kept by the first loop do not depend on the weekday table.\<close>

lemma fst_countLoop:
  "fst (countLoop LocalTZA cs (cc, bd)) = fold countOne cs cc"
  by (induction cs arbitrary: cc bd) (simp_all add: Let_def countOne_def)

lemma distinct_fold_countOne:
  "distinct (map fst cc) \<Longrightarrow> distinct (map fst (fold countOne cs cc))"
  by (induction cs arbitrary: cc) (simp_all add: countOne_def distinct_assign)

lemma map_of_fold_countOne:
  "map_of (fold countOne cs cc) k =
     (if \<exists>c \<in> set cs. Complaint.category c = k
      then Some ((case map_of cc k of Some n \<Rightarrow> n | None \<Rightarrow> 0)
                   + length (filter (\<lambda>c. Complaint.category c = k) cs))
      else map_of cc k)"
proof (induction cs arbitrary: cc)
  case Nil
  then show ?case by simp
next
  case (Cons c cs)
  show ?case
    by (simp add: Cons.IH) (auto simp: countOne_def map_of_assign split: option.splits)
qed

lemma countLoop_entry:
  assumes "(k, v) \<in> set (fst (countLoop LocalTZA cs ([], [])))"
  shows "v = length (filter (\<lambda>c. Complaint.category c = k) cs)"
proof -
  have d: "distinct (map fst (fold countOne cs []))"
    by (rule distinct_fold_countOne) simp
  from assms have "map_of (fold countOne cs []) k = Some v"
    unfolding fst_countLoop using d by simp
  then show ?thesis
    by (simp add: map_of_fold_countOne split: if_splits)
qed

text \<open>Sorting by descending key.\<close>

lemma sorted_insertSorted:
  assumes "sorted_wrt (\<lambda>a b. k b \<le> k a) ys"
  shows "sorted_wrt (\<lambda>a b. k b \<le> k a) (insertSorted (\<lambda>a b. k b - k a) x ys)"
  using assms
proof (induction ys)
  case Nil
  then show ?case by simp
next
  case (Cons y ys)
  show ?case
  proof (cases "k y - k x \<le> (0::int)")
    case True
    with Cons.prems show ?thesis by auto
  next
    case False
    with Cons show ?thesis by (auto simp: set_insertSorted)
  qed
qed

lemma sorted_sortBy:
  "sorted_wrt (\<lambda>a b. k b \<le> k a) (sortBy (\<lambda>a b. k b - k a) xs)"
  by (induction xs) (simp_all add: sortBy_Nil sortBy_Cons sorted_insertSorted)

lemma insightOf_fields:
  "PatternInsight.category (insightOf bd n (k, v)) = k"
  "frequency (insightOf bd n (k, v)) =
     Math_round (binary64 (binary64 (of_nat v / of_nat n) * 100))"
  "trend (insightOf bd n (k, v)) =
     (if frequency (insightOf bd n (k, v)) > 20 then increasing
      else if frequency (insightOf bd n (k, v)) > 10 then stable else decreasing)"
  by (simp_all add: insightOf_def Let_def)

lemma analyzePatterns_entries:
  assumes "complaints \<noteq> []" "p \<in> set (analyzePatterns LocalTZA complaints)"
  shows "\<exists>k v bd. p = insightOf bd (length complaints) (k, v)
           \<and> v = length (filter (\<lambda>c. Complaint.category c = k) complaints)"
proof -
  obtain cc bd where cl: "countLoop LocalTZA complaints ([], []) = (cc, bd)"
    by (cases "countLoop LocalTZA complaints ([], [])")
  from assms have "p \<in> set (map (insightOf bd (length complaints)) cc)"
    by (simp add: analyzePatterns_def cl set_sortBy)
  then obtain k v where kv: "(k, v) \<in> set cc" and p: "p = insightOf bd (length complaints) (k, v)"
    by auto
  from kv cl have "(k, v) \<in> set (fst (countLoop LocalTZA complaints ([], [])))"
    by simp
  then have "v = length (filter (\<lambda>c. Complaint.category c = k) complaints)"
    by (rule countLoop_entry)
  with p show ?thesis by blast
qed

text \<open>Complaints of one category, all on one weekday.\<close>

lemma countLoop_single:
  assumes "\<forall>c \<in> set cs. Complaint.category c = k \<and> weekdayLong LocalTZA (createdAt c) = d"
  shows "countLoop LocalTZA cs ([(k, a)], [(k, [(d, a')])]) =
           ([(k, a + length cs)], [(k, [(d, a' + length cs)])])"
  using assms by (induction cs arbitrary: a a') (simp_all add: Let_def)

lemma countLoop_single_start:
  assumes "cs \<noteq> []"
    and "\<forall>c \<in> set cs. Complaint.category c = k \<and> weekdayLong LocalTZA (createdAt c) = d"
  shows "countLoop LocalTZA cs ([], []) = ([(k, length cs)], [(k, [(d, length cs)])])"
proof (cases cs)
  case Nil
  with assms(1) show ?thesis by simp
next
  case (Cons c cs')
  with assms(2) have c: "Complaint.category c = k" "weekdayLong LocalTZA (createdAt c) = d"
    and rest: "\<forall>c \<in> set cs'. Complaint.category c = k \<and> weekdayLong LocalTZA (createdAt c) = d"
    by simp_all
  have "countLoop LocalTZA (c # cs') ([], []) =
          countLoop LocalTZA cs' ([(k, 1)], [(k, [(d, 1)])])"
    by (simp add: Let_def c)
  also have "\<dots> = ([(k, 1 + length cs')], [(k, [(d, 1 + length cs')])])"
    using rest by (rule countLoop_single)
  finally show ?thesis by (simp add: Cons)
qed

lemma Math_round_of_int: "Math_round (of_int n) = n"
  unfolding Math_round_def by (rule floor_unique) simp_all

lemma frequency_all: "Math_round (binary64 (binary64 1 * 100)) = 100"
proof -
  have "binary64 (of_int 1) = of_int 1" by (rule binary64_of_int) simp
  moreover have "binary64 (of_int 100) = of_int 100" by (rule binary64_of_int) simp
  ultimately have "binary64 (binary64 1 * 100) = of_int 100" by simp
  then show ?thesis by (simp only: Math_round_of_int)
qed

lemma analyzePatterns_single:
  assumes "cs \<noteq> []"
    and "\<forall>c \<in> set cs. Complaint.category c = k \<and> weekdayLong LocalTZA (createdAt c) = d"
  shows "analyzePatterns LocalTZA cs =
           [\<lparr>PatternInsight.category = k, frequency = 100, trend = increasing, peakDays = [d],
             recommendation = ''High volume of '' @ categoryName k
                    @ '' complaints. Consider preventive maintenance schedule.''\<rparr>]"
proof -
  from assms(1) have n: "0 < length cs" by simp
  show ?thesis
    unfolding analyzePatterns_def countLoop_single_start [OF assms]
    using assms(1)
    by (simp add: insightOf_def Let_def frequency_all sortBy_def)
qed

lemma distinct_map_insertSorted:
  "distinct (map f (insertSorted cmp x ys)) \<longleftrightarrow> f x \<notin> f ` set ys \<and> distinct (map f ys)"
  by (induction ys) (auto simp: set_insertSorted)

lemma distinct_map_sortBy:
  "distinct (map f (sortBy cmp xs)) \<longleftrightarrow> distinct (map f xs)"
  by (induction xs) (simp_all add: sortBy_Nil sortBy_Cons distinct_map_insertSorted set_sortBy)

lemma keys_fold_countOne:
  "fst ` set (fold countOne cs []) = Complaint.category ` set cs"
proof -
  have "fst ` set (fold countOne cs []) = dom (map_of (fold countOne cs []))"
    by (simp add: dom_map_of_conv_image_fst)
  also have "\<dots> = Complaint.category ` set cs"
    by (auto simp: dom_def map_of_fold_countOne split: if_splits)
  finally show ?thesis .
qed

lemma analyzePatterns_categories:
  "PatternInsight.category ` set (analyzePatterns LocalTZA complaints)
     = Complaint.category ` set complaints"
  "distinct (map PatternInsight.category (analyzePatterns LocalTZA complaints))"
proof -
  obtain cc bd where cl: "countLoop LocalTZA complaints ([], []) = (cc, bd)"
    by (cases "countLoop LocalTZA complaints ([], [])")
  then have cc: "cc = fold countOne complaints []"
    using fst_countLoop [of LocalTZA complaints "[]" "[]"] by simp
  define n where "n = (if length complaints = 0 then 1 else length complaints)"
  have m: "map PatternInsight.category (map (insightOf bd n) cc) = map fst cc"
    by (simp add: insightOf_def Let_def split: prod.splits)
  have a: "analyzePatterns LocalTZA complaints =
             sortBy (\<lambda>a b. frequency b - frequency a) (map (insightOf bd n) cc)"
    by (simp add: analyzePatterns_def cl n_def)
  have "PatternInsight.category ` set (analyzePatterns LocalTZA complaints)
          = set (map PatternInsight.category (map (insightOf bd n) cc))"
    unfolding a set_sortBy by (simp add: image_image)
  also have "\<dots> = fst ` set cc" unfolding m by simp
  finally show "PatternInsight.category ` set (analyzePatterns LocalTZA complaints)
     = Complaint.category ` set complaints"
    by (simp add: cc keys_fold_countOne)
  have "distinct (map fst cc)"
    unfolding cc by (rule distinct_fold_countOne) simp
  then show "distinct (map PatternInsight.category (analyzePatterns LocalTZA complaints))"
    unfolding a distinct_map_sortBy m .
qed

lemma analyzePatterns_fold:
  "\<exists>bd. analyzePatterns LocalTZA complaints =
          sortBy (\<lambda>a b. frequency b - frequency a)
            (map (insightOf bd (if length complaints = 0 then 1 else length complaints))
               (fold countOne complaints []))"
proof -
  obtain cc bd where cl: "countLoop LocalTZA complaints ([], []) = (cc, bd)"
    by (cases "countLoop LocalTZA complaints ([], [])")
  then have "cc = fold countOne complaints []"
    using fst_countLoop [of LocalTZA complaints "[]" "[]"] by simp
  with cl show ?thesis
    by (auto simp: analyzePatterns_def)
qed

lemma two_insights:
  assumes "fold countOne complaints [] = [(k1, v1), (k2, v2)]" "length complaints = n" "0 < n"
    and "Math_round (binary64 (binary64 (of_nat v1 / of_nat n) * 100)) = f1"
    and "Math_round (binary64 (binary64 (of_nat v2 / of_nat n) * 100)) = f2"
    and "f2 \<le> f1"
  shows "map PatternInsight.category (analyzePatterns LocalTZA complaints) = [k1, k2]"
    and "map frequency (analyzePatterns LocalTZA complaints) = [f1, f2]"
proof -
  from analyzePatterns_fold [of LocalTZA complaints] obtain bd where
    a: "analyzePatterns LocalTZA complaints =
          sortBy (\<lambda>a b. frequency b - frequency a)
            [insightOf bd n (k1, v1), insightOf bd n (k2, v2)]"
    using assms(1,2,3) by auto
  have f: "frequency (insightOf bd n (k1, v1)) = f1" "frequency (insightOf bd n (k2, v2)) = f2"
    using assms(4,5) by (simp_all add: insightOf_fields)
  have s: "sortBy (\<lambda>a b. frequency b - frequency a)
            [insightOf bd n (k1, v1), insightOf bd n (k2, v2)] =
           [insightOf bd n (k1, v1), insightOf bd n (k2, v2)]"
    using assms(6) by (simp add: sortBy_def f)
  show "map PatternInsight.category (analyzePatterns LocalTZA complaints) = [k1, k2]"
    unfolding a s by (simp add: insightOf_fields)
  show "map frequency (analyzePatterns LocalTZA complaints) = [f1, f2]"
    unfolding a s by (simp add: f)
qed

text \<open>
  C9, as stated, fails: the frequency is not round(categoryCount / totalComplaints \<times> 100)
  in exact arithmetic. For 23 complaints of 40 the exact value is 57.5, which rounds to 58,
  and the frequency returned is 57: the quotient 0.575 is rounded to a Number below it and
  the product with 100 falls below 57.5. No rule for ties explains it, since with 1
  complaint of 8 the exact value 12.5 gives the frequency 13.
\<close>

theorem frequency_exact_counterexample:
  "map PatternInsight.category (analyzePatterns (fixedZone 0)
     (replicate 23 \<lparr>Complaint.category = water, createdAt = DateValue 1700000000000\<rparr>
      @ replicate 17 \<lparr>Complaint.category = security, createdAt = DateValue 1700000000000\<rparr>))
     = [water, security]
   \<and> map frequency (analyzePatterns (fixedZone 0)
     (replicate 23 \<lparr>Complaint.category = water, createdAt = DateValue 1700000000000\<rparr>
      @ replicate 17 \<lparr>Complaint.category = security, createdAt = DateValue 1700000000000\<rparr>))
     = [57, 43]
   \<and> Math_round (of_nat 23 / of_nat 40 * 100) = 58
   \<and> map PatternInsight.category (analyzePatterns (fixedZone 0)
     (replicate 7 \<lparr>Complaint.category = security, createdAt = DateValue 1700000000000\<rparr>
      @ replicate 1 \<lparr>Complaint.category = water, createdAt = DateValue 1700000000000\<rparr>))
     = [security, water]
   \<and> map frequency (analyzePatterns (fixedZone 0)
     (replicate 7 \<lparr>Complaint.category = security, createdAt = DateValue 1700000000000\<rparr>
      @ replicate 1 \<lparr>Complaint.category = water, createdAt = DateValue 1700000000000\<rparr>))
     = [88, 13]
   \<and> of_nat 1 / of_nat 8 * 100 = (25 / 2 :: rat)"
proof -
  let ?w = "\<lparr>Complaint.category = water, createdAt = DateValue 1700000000000\<rparr>"
  let ?s = "\<lparr>Complaint.category = security, createdAt = DateValue 1700000000000\<rparr>"
  have c1: "fold countOne (replicate 23 ?w @ replicate 17 ?s) [] = [(water, 23), (security, 17)]"
    by code_simp
  have c2: "fold countOne (replicate 7 ?s @ replicate 1 ?w) [] = [(security, 7), (water, 1)]"
    by code_simp
  have f: "Math_round (binary64 (binary64 (of_nat 23 / of_nat 40) * 100)) = 57"
    "Math_round (binary64 (binary64 (of_nat 17 / of_nat 40) * 100)) = 43"
    "Math_round (binary64 (binary64 (of_nat 7 / of_nat 8) * 100)) = 88"
    "Math_round (binary64 (binary64 (of_nat 1 / of_nat 8) * 100)) = 13"
    by code_simp+
  have e: "Math_round (of_nat 23 / of_nat 40 * 100) = 58"
    unfolding Math_round_def by (rule floor_unique) simp_all
  have a: "map PatternInsight.category (analyzePatterns (fixedZone 0)
              (replicate 23 ?w @ replicate 17 ?s)) = [water, security]"
    "map frequency (analyzePatterns (fixedZone 0) (replicate 23 ?w @ replicate 17 ?s)) = [57, 43]"
    by (rule two_insights [where n = 40, OF c1 _ _ f(1) f(2)]; simp)+
  have b: "map PatternInsight.category (analyzePatterns (fixedZone 0)
              (replicate 7 ?s @ replicate 1 ?w)) = [security, water]"
    "map frequency (analyzePatterns (fixedZone 0) (replicate 7 ?s @ replicate 1 ?w)) = [88, 13]"
    by (rule two_insights [where n = 8, OF c2 _ _ f(3) f(4)]; simp)+
  from a b e show ?thesis by simp
qed

text \<open>
  C9, amended. For a collection of complaints that is not empty, every insight returned
  by \<open>analyzePatterns\<close> has the frequency \<open>Math.round\<close> of categoryCount / totalComplaints
  \<times> 100, the quotient and then the product being rounded to binary64, for the complaints
  of its category, and the trend \<open>increasing\<close> above 20, \<open>stable\<close> above 10, \<open>decreasing\<close>
  otherwise; there is one insight for each category that occurs; the list is sorted by
  descending frequency. For 10 complaints, all of category \<open>water\<close> and created on one
  weekday, the result is the one insight with frequency 100, trend \<open>increasing\<close> and that
  weekday as its only peak day.
\<close>

theorem analyzePatterns_insights:
  "complaints \<noteq> [] \<Longrightarrow>
     (\<forall>p \<in> set (analyzePatterns LocalTZA complaints).
         frequency p =
           Math_round (binary64 (binary64
             (of_nat (length (filter (\<lambda>c. Complaint.category c = PatternInsight.category p)
                        complaints))
                / of_nat (length complaints)) * 100))
       \<and> trend p = (if frequency p > 20 then increasing
                    else if frequency p > 10 then stable else decreasing))
   \<and> PatternInsight.category ` set (analyzePatterns LocalTZA complaints)
       = Complaint.category ` set complaints
   \<and> distinct (map PatternInsight.category (analyzePatterns LocalTZA complaints))
   \<and> sorted_wrt (\<lambda>a b. frequency a \<ge> frequency b) (analyzePatterns LocalTZA complaints)
   \<and> (length complaints = 10
        \<and> (\<forall>c \<in> set complaints.
              Complaint.category c = water \<and> weekdayLong LocalTZA (createdAt c) = day)
        \<longrightarrow> analyzePatterns LocalTZA complaints =
              [\<lparr>PatternInsight.category = water, frequency = 100, trend = increasing,
                peakDays = [day],
                recommendation =
                  ''High volume of water complaints. Consider preventive maintenance schedule.''\<rparr>])"
proof (intro conjI ballI impI)
  fix p
  assume ne: "complaints \<noteq> []" and p: "p \<in> set (analyzePatterns LocalTZA complaints)"
  from analyzePatterns_entries [OF ne p] obtain k v bd where
    pe: "p = insightOf bd (length complaints) (k, v)"
    and v: "v = length (filter (\<lambda>c. Complaint.category c = k) complaints)"
    by blast
  show "frequency p =
           Math_round (binary64 (binary64
             (of_nat (length (filter (\<lambda>c. Complaint.category c = PatternInsight.category p)
                        complaints))
                / of_nat (length complaints)) * 100))"
    unfolding pe insightOf_fields v ..
  show "trend p = (if frequency p > 20 then increasing
                    else if frequency p > 10 then stable else decreasing)"
    unfolding pe by (rule insightOf_fields)
next
  show "PatternInsight.category ` set (analyzePatterns LocalTZA complaints)
       = Complaint.category ` set complaints"
    by (rule analyzePatterns_categories)
next
  show "distinct (map PatternInsight.category (analyzePatterns LocalTZA complaints))"
    by (rule analyzePatterns_categories)
next
  show "sorted_wrt (\<lambda>a b. frequency a \<ge> frequency b) (analyzePatterns LocalTZA complaints)"
    by (simp add: analyzePatterns_def sorted_sortBy split: prod.splits)
next
  assume ne: "complaints \<noteq> []"
    and "length complaints = 10
        \<and> (\<forall>c \<in> set complaints.
              Complaint.category c = water \<and> weekdayLong LocalTZA (createdAt c) = day)"
  then have "\<forall>c \<in> set complaints.
              Complaint.category c = water \<and> weekdayLong LocalTZA (createdAt c) = day"
    by simp
  from analyzePatterns_single [OF ne this]
  show "analyzePatterns LocalTZA complaints =
              [\<lparr>PatternInsight.category = water, frequency = 100, trend = increasing,
                peakDays = [day],
                recommendation =
                  ''High volume of water complaints. Consider preventive maintenance schedule.''\<rparr>]"
    by simp
qed


theorem analyzePatterns_insights_witness:
  "analyzePatterns (fixedZone 0)
     (replicate 10 \<lparr>Complaint.category = water, createdAt = DateValue 1700000000000\<rparr>) =
     [\<lparr>PatternInsight.category = water, frequency = 100, trend = increasing,
       peakDays = [''Tuesday''],
       recommendation =
         ''High volume of water complaints. Consider preventive maintenance schedule.''\<rparr>]"
proof -
  let ?c = "\<lparr>Complaint.category = water, createdAt = DateValue 1700000000000\<rparr>"
  have ne: "replicate 10 ?c \<noteq> []" by simp
  have d: "weekdayLong (fixedZone 0) (DateValue 1700000000000) = ''Tuesday''"
    by (simp add: weekdayLong_def WeekDay_def Day_def LocalTime_def fixedZone_def msPerDay_def)
  have h: "length (replicate 10 ?c) = 10
        \<and> (\<forall>c \<in> set (replicate 10 ?c).
              Complaint.category c = water
              \<and> weekdayLong (fixedZone 0) (createdAt c) = ''Tuesday'')"
    using d by simp
  from analyzePatterns_insights [OF ne, of "fixedZone 0" "''Tuesday''"] h
  show ?thesis by blast
qed

end
